theory Spec2Isabelle
  imports Complex_Main
begin

section \<open>Values of the program\<close>

text \<open>
  The bot is one Python module, \<^verbatim>\<open>src/main.py\<close>. A Python \<^verbatim>\<open>str\<close> is modelled by
  \<^typ>\<open>string\<close>: one character of the model stands for one code point, so \<open>length\<close> is
  Python's \<^verbatim>\<open>len\<close> and \<open>take\<close> is a slice. The model covers the code points below
  256. The emoji and the typographic apostrophe of the bot's own fixed texts lie beyond
  that range; they are written as their UTF-8 bytes, and the program never measures or
  slices a text that holds one of them.

  What the provider sends back is decoded JSON, that is a Python value: \<^verbatim>\<open>None\<close>, a
  \<^verbatim>\<open>bool\<close>, an \<^verbatim>\<open>int\<close>, a finite \<^verbatim>\<open>float\<close> (given by the rational number it
  denotes), a \<^verbatim>\<open>str\<close>, a \<^verbatim>\<open>list\<close> or a \<^verbatim>\<open>dict\<close> with string keys (an association
  list with distinct keys, looked up with \<open>map_of\<close>).
\<close>

datatype json =
    JNull
  | JBool bool
  | JInt int
  | JFloat rat
  | JStr string
  | JList "json list"
  | JObj "(string \<times> json) list"

datatype py_error = TypeError | AttributeError | ValueError

text \<open>Python's truth value of an object, as \<^verbatim>\<open>not mid\<close> and \<^verbatim>\<open>if message_id\<close> take it.\<close>

fun truthy :: "json \<Rightarrow> bool" where
  "truthy JNull = False"
| "truthy (JBool b) = b"
| "truthy (JInt i) = (i \<noteq> 0)"
| "truthy (JFloat r) = (r \<noteq> 0)"
| "truthy (JStr s) = (s \<noteq> [])"
| "truthy (JList xs) = (xs \<noteq> [])"
| "truthy (JObj kvs) = (kvs \<noteq> [])"

text \<open>
  Membership in a Python \<^verbatim>\<open>set\<close> hashes the object and compares with \<^verbatim>\<open>==\<close>.
  Lists and dicts are unhashable (\<^verbatim>\<open>TypeError\<close>); \<^verbatim>\<open>True == 1 == 1.0\<close> and
  \<^verbatim>\<open>False == 0 == 0.0\<close>, numbers compare by value, and a string equals only the same
  string. A \<open>key\<close> is a hashable value up to that equality, so that a Python set of such
  values is a HOL set of keys.
\<close>

datatype key = KNone | KNum rat | KStr string

fun hash_key :: "json \<Rightarrow> key option" where
  "hash_key JNull = Some KNone"
| "hash_key (JBool b) = Some (KNum (if b then 1 else 0))"
| "hash_key (JInt i) = Some (KNum (of_int i))"
| "hash_key (JFloat r) = Some (KNum r)"
| "hash_key (JStr s) = Some (KStr s)"
| "hash_key (JList xs) = None"
| "hash_key (JObj kvs) = None"

text \<open>\<^verbatim>\<open>d.get(k, default)\<close> on a dict.\<close>

definition dict_get :: "(string \<times> json) list \<Rightarrow> string \<Rightarrow> json \<Rightarrow> json" where
  "dict_get kvs k d = (case map_of kvs k of Some v \<Rightarrow> v | None \<Rightarrow> d)"

text \<open>
  \<^verbatim>\<open>for msg in messages\<close>: a list yields its elements, a string its characters, a dict
  its keys; nothing else of JSON can be iterated (\<^verbatim>\<open>TypeError\<close>).
\<close>

fun py_iter :: "json \<Rightarrow> py_error + json list" where
  "py_iter (JList xs) = Inr xs"
| "py_iter (JStr s) = Inr (map (\<lambda>c. JStr [c]) s)"
| "py_iter (JObj kvs) = Inr (map (\<lambda>kv. JStr (fst kv)) kvs)"
| "py_iter v = Inl TypeError"

text \<open>
  \<^verbatim>\<open>str(v)\<close>, which an f-string applies to each field. A string is itself; the texts
  of \<^verbatim>\<open>None\<close>, booleans and integers are fixed; the text of a float, list or dict is
  left to the parameter \<open>repr\<close>.
\<close>

definition digit_char :: "nat \<Rightarrow> char" where
  "digit_char d = char_of (of_char CHR ''0'' + d)"

fun nat_digits :: "nat \<Rightarrow> string" where
  "nat_digits n = (if n < 10 then [digit_char n] else nat_digits (n div 10) @ [digit_char (n mod 10)])"

declare nat_digits.simps [simp del]

definition int_str :: "int \<Rightarrow> string" where
  "int_str i = (if i < 0 then CHR ''-'' # nat_digits (nat (- i)) else nat_digits (nat i))"

fun py_str :: "(json \<Rightarrow> string) \<Rightarrow> json \<Rightarrow> string" where
  "py_str repr (JStr s) = s"
| "py_str repr JNull = ''None''"
| "py_str repr (JBool b) = (if b then ''True'' else ''False'')"
| "py_str repr (JInt i) = int_str i"
| "py_str repr v = repr v"

section \<open>Configuration\<close>

definition MAILCX_API_BASE :: string where
  "MAILCX_API_BASE = ''https://mail.cx/api/api/v1/mailbox/''"

definition DEFAULT_DOMAIN :: string where
  "DEFAULT_DOMAIN = ''nqmo.com''"

definition USERNAME_MIN :: nat where
  "USERNAME_MIN = 6"

definition USERNAME_MAX :: nat where
  "USERNAME_MAX = 7"

definition POLL_INTERVAL :: nat where
  "POLL_INTERVAL = 10"

section \<open>The address generator\<close>

text \<open>
  \<^verbatim>\<open>random.choice\<close> draws from the module's generator. The generator is modelled by the
  infinite sequence of its draws: a choice from \<open>xs\<close> takes the next draw modulo the
  length of \<open>xs\<close> as the index and leaves the rest of the sequence. Every sequence the
  program chooses from is a non-empty constant.
\<close>

type_synonym rand = "nat \<Rightarrow> nat"

definition choice :: "'a list \<Rightarrow> rand \<Rightarrow> 'a \<times> rand" where
  "choice xs r = (xs ! (r 0 mod length xs), \<lambda>n. r (Suc n))"

fun choices :: "nat \<Rightarrow> 'a list \<Rightarrow> rand \<Rightarrow> 'a list \<times> rand" where
  "choices 0 xs r = ([], r)"
| "choices (Suc n) xs r =
     (let (c, r1) = choice xs r; (cs, r2) = choices n xs r1 in (c # cs, r2))"

definition ascii_lowercase :: string where
  "ascii_lowercase = ''abcdefghijklmnopqrstuvwxyz''"

definition digits :: string where
  "digits = ''0123456789''"

definition make_random_username :: "rand \<Rightarrow> string \<times> rand" where
  "make_random_username r =
     (let (len, r1) = choice [USERNAME_MIN, USERNAME_MAX] r;
          alphabet = ascii_lowercase @ digits;
          (first, r2) = choice ascii_lowercase r1;
          (rest, r3) = choices (len - 1) alphabet r2
      in (first # rest, r3))"

text \<open>
  The address \<^verbatim>\<open>cmd_generate\<close> builds from a username with an f-string: the
  username, an at sign, \<^verbatim>\<open>DEFAULT_DOMAIN\<close>.
\<close>

definition make_email :: "string \<Rightarrow> string" where
  "make_email username = username @ ''@'' @ DEFAULT_DOMAIN"

section \<open>The outside world\<close>

text \<open>
  The program talks to the mail provider (\<^verbatim>\<open>session.get\<close>) and to the chat platform
  (\<^verbatim>\<open>send_message\<close>, \<^verbatim>\<open>reply_text\<close>, \<^verbatim>\<open>query.answer\<close>,
  \<^verbatim>\<open>edit_message_text\<close>). Every such call is recorded as an event, in order, in a
  trace. \<open>SendMessage\<close> records the user id, the text, the two parts of the button's
  callback data (the address and the message's \<^verbatim>\<open>id\<close>) and whether the call returned
  (\<open>True\<close>) or raised (\<open>False\<close>). The calls that the two handlers make to the chat
  platform are taken to return.
\<close>

datatype event =
    Get string
  | SendMessage int string string json bool
  | Sleep nat
  | ReplyText int string
  | Answer
  | EditMessageText string

text \<open>
  What one \<^verbatim>\<open>session.get(url, timeout=15)\<close> inside \<^verbatim>\<open>fetch_mailcx\<close> can do: the request
  raises (no connection, timeout), carrying the exception's text; or a response with a
  status arrives and \<^verbatim>\<open>resp.text()\<close> raises; or the body is read, and \<^verbatim>\<open>resp.json()\<close>
  either decodes a value or raises (\<open>None\<close>).
\<close>

datatype http_outcome =
    GetRaises string
  | TextRaises nat string
  | Response nat string "json option"

text \<open>
  The environment answers each call as a function of everything that has happened so far
  (the trace) and of the call's arguments. The theorems hold for every environment.
  \<open>send_message\<close> returns \<open>None\<close> when the message is sent and the exception's text when
  the call raises. \<open>repr\<close> is Python's text of a float, list or dict.
\<close>

record env =
  http_get :: "event list \<Rightarrow> string \<Rightarrow> http_outcome"
  send_message :: "event list \<Rightarrow> int \<Rightarrow> string \<Rightarrow> string \<Rightarrow> string option"
  repr :: "json \<Rightarrow> string"

section \<open>The provider client\<close>

text \<open>\<^verbatim>\<open>s.rstrip("/")\<close>\<close>

definition rstrip :: "char \<Rightarrow> string \<Rightarrow> string" where
  "rstrip c s = rev (dropWhile (\<lambda>x. x = c) (rev s))"

text \<open>
  \<^verbatim>\<open>urllib.parse.quote(email, safe="")\<close>: the string is encoded as UTF-8 (one byte for a
  code point below 128, two for the others of the model), and every byte that is not a
  letter, a digit or one of \<^verbatim>\<open>_.-~\<close> becomes a percent sign and two upper-case
  hexadecimal digits.
\<close>

definition always_safe :: string where
  "always_safe = ''ABCDEFGHIJKLMNOPQRSTUVWXYZabcdefghijklmnopqrstuvwxyz0123456789_.-~''"

definition hex_digit :: "nat \<Rightarrow> char" where
  "hex_digit d = ''0123456789ABCDEF'' ! d"

definition utf8 :: "char \<Rightarrow> nat list" where
  "utf8 c = (let n = of_char c in if n < (128::nat) then [n] else [192 + n div 64, 128 + n mod 64])"

definition quote_byte :: "nat \<Rightarrow> string" where
  "quote_byte b =
     (if b < 128 \<and> char_of b \<in> set always_safe then [char_of b]
      else [CHR ''%'', hex_digit (b div 16), hex_digit (b mod 16)])"

definition quote :: "string \<Rightarrow> string" where
  "quote s = concat (map quote_byte (concat (map utf8 s)))"

text \<open>
  The URL \<^verbatim>\<open>fetch_mailcx\<close> asks for. \<^verbatim>\<open>if message_id:\<close> is false for \<^verbatim>\<open>None\<close> and for
  the empty string.
\<close>

definition mailcx_url :: "string \<Rightarrow> string option \<Rightarrow> string" where
  "mailcx_url email message_id =
     (let encoded = quote email;
          url = rstrip CHR ''/'' MAILCX_API_BASE @ ''/'' @ encoded
      in case message_id of
           None \<Rightarrow> url
         | Some m \<Rightarrow> if m \<noteq> [] then url @ ''/'' @ m else url)"

text \<open>
  \<^verbatim>\<open>fetch_mailcx\<close> returns a Python value and has made one request: the decoded JSON,
  or the body's text when it does not decode, or the dict \<^verbatim>\<open>{"error": str(e)}\<close> when the
  request or the reading of the body raised. The status is never read.
\<close>

definition fetch_mailcx :: "env \<Rightarrow> event list \<Rightarrow> string \<Rightarrow> string option \<Rightarrow> json \<times> event list" where
  "fetch_mailcx e tr email message_id =
     (let url = mailcx_url email message_id
      in (case http_get e tr url of
            GetRaises msg \<Rightarrow> JObj [(''error'', JStr msg)]
          | TextRaises status msg \<Rightarrow> JObj [(''error'', JStr msg)]
          | Response status body decoded \<Rightarrow>
              (case decoded of Some v \<Rightarrow> v | None \<Rightarrow> JStr body),
          tr @ [Get url]))"

section \<open>The view action\<close>

text \<open>\<^verbatim>\<open>s.split(sep, 1)\<close>: one or two pieces, cut at the first separator.\<close>

definition split1 :: "char \<Rightarrow> string \<Rightarrow> string list" where
  "split1 sep s =
     (case dropWhile (\<lambda>c. c \<noteq> sep) s of
        [] \<Rightarrow> [s]
      | _ # rest \<Rightarrow> [takeWhile (\<lambda>c. c \<noteq> sep) s, rest])"

text \<open>\<^verbatim>\<open>a, b = xs\<close> raises \<^verbatim>\<open>ValueError\<close> unless \<open>xs\<close> has exactly two elements.\<close>

fun unpack2 :: "'a list \<Rightarrow> py_error + ('a \<times> 'a)" where
  "unpack2 [a, b] = Inr (a, b)"
| "unpack2 xs = Inl ValueError"

definition INVALID_DATA :: string where
  "INVALID_DATA = [CHR 0xE2, CHR 0x9D, CHR 0x8C] @ '' Invalid data''"

definition TRUNCATED :: string where
  "TRUNCATED = CHR 0x0A # ''...truncated...''"

text \<open>Lines 107 to 113: the text of a fetched message.\<close>

definition message_text :: "env \<Rightarrow> json \<Rightarrow> string" where
  "message_text e data =
     (case data of
        JObj kvs \<Rightarrow>
          (let subj = dict_get kvs ''subject'' (JStr ''(no subject)'');
               frm = dict_get kvs ''from'' (JStr ''unknown'');
               body = dict_get kvs ''body'' (JStr ''(no body)'')
           in ''*Subject:* '' @ py_str (repr e) subj @ [CHR 0x0A] @ ''*From:* ''
                @ py_str (repr e) frm @ [CHR 0x0A, CHR 0x0A] @ py_str (repr e) body)
      | _ \<Rightarrow> py_str (repr e) data)"

text \<open>Lines 115 and 116: the cut at 3800 characters.\<close>

definition truncate_text :: "string \<Rightarrow> string" where
  "truncate_text text = (if length text > 3800 then take 3800 text @ TRUNCATED else text)"

text \<open>Lines 104 to 117: what the handler does with a token that has split in two.\<close>

definition view_message :: "env \<Rightarrow> string \<Rightarrow> string \<Rightarrow> event list \<Rightarrow> event list" where
  "view_message e email mid tr =
     (let (data, tr1) = fetch_mailcx e tr email (Some mid)
      in tr1 @ [EditMessageText (truncate_text (message_text e data))])"

text \<open>The handler takes the callback's data and returns the trace with its calls added.\<close>

definition callback_view_message :: "env \<Rightarrow> string \<Rightarrow> event list \<Rightarrow> event list" where
  "callback_view_message e data tr =
     (let tr1 = tr @ [Answer]
      in case unpack2 (split1 CHR ''|'' data) of
           Inl err \<Rightarrow> tr1 @ [EditMessageText INVALID_DATA]
         | Inr (email, mid) \<Rightarrow> view_message e email mid tr1)"

section \<open>The registry and the generate command\<close>

text \<open>
  \<^verbatim>\<open>USER_MAILBOXES\<close> maps a Telegram user id to a dict with the fields \<^verbatim>\<open>email\<close> and
  \<^verbatim>\<open>seen\<close>. A Python dict keeps its keys in the order of their first insertion, and the
  poll loop walks it in that order, so the registry is an association list; \<open>dict_set\<close>
  is the assignment \<^verbatim>\<open>d[k] = v\<close>, which replaces the value of a key that is present
  where it stands and appends a new key at the end.
\<close>

record mailbox =
  email :: string
  seen :: "key set"

fun dict_set :: "'k \<Rightarrow> 'v \<Rightarrow> ('k \<times> 'v) list \<Rightarrow> ('k \<times> 'v) list" where
  "dict_set k v [] = [(k, v)]"
| "dict_set k v (p # ps) = (if fst p = k then (k, v) # ps else p # dict_set k v ps)"

text \<open>
  The state of the process: the registry, the trace of the calls made so far, and the
  exception that has ended the background task \<^verbatim>\<open>poll_inboxes\<close>, if one has.
\<close>

record world =
  USER_MAILBOXES :: "(int \<times> mailbox) list"
  trace :: "event list"
  task :: "py_error option"

definition initial_world :: world where
  "initial_world = \<lparr>USER_MAILBOXES = [], trace = [], task = None\<rparr>"

definition generate_reply :: "string \<Rightarrow> string" where
  "generate_reply address =
     [CHR 0xE2, CHR 0x9C, CHR 0x85] @ '' Your temp mail: '' @ [CHR 0x60] @ address @ [CHR 0x60]
       @ [CHR 0x0A, CHR 0x0A] @ ''I'' @ [CHR 0xE2, CHR 0x80, CHR 0x99]
       @ ''ll notify you when new mails arrive (checked every ''
       @ nat_digits POLL_INTERVAL @ ''s).''"

text \<open>\<^verbatim>\<open>cmd_generate\<close> for the user \<open>user_id\<close>, with the generator's draws \<open>r\<close>.\<close>

definition cmd_generate :: "int \<Rightarrow> rand \<Rightarrow> world \<Rightarrow> world" where
  "cmd_generate user_id r w =
     (let username = fst (make_random_username r);
          address = make_email username
      in w\<lparr>USER_MAILBOXES := dict_set user_id \<lparr>email = address, seen = {}\<rparr> (USER_MAILBOXES w),
           trace := trace w @ [ReplyText user_id (generate_reply address)]\<rparr>)"

section \<open>The poll loop\<close>

definition new_mail_text :: "env \<Rightarrow> json \<Rightarrow> json \<Rightarrow> json \<Rightarrow> string" where
  "new_mail_text e subj frm date =
     [CHR 0xE2, CHR 0x9C, CHR 0x89, CHR 0xEF, CHR 0xB8, CHR 0x8F] @ '' *New Mail!*''
       @ [CHR 0x0A, CHR 0x0A] @ ''*Subject:* '' @ py_str (repr e) subj
       @ [CHR 0x0A] @ ''*From:* '' @ py_str (repr e) frm
       @ [CHR 0x0A] @ ''*Date:* '' @ py_str (repr e) date"

text \<open>The button's callback data: the address, a bar, the text of the message's id.\<close>

definition callback_data :: "env \<Rightarrow> string \<Rightarrow> json \<Rightarrow> string" where
  "callback_data e address mid = address @ ''|'' @ py_str (repr e) mid"

text \<open>
  Lines 137 to 153, the body of \<^verbatim>\<open>for msg in messages\<close>, for one \<open>msg\<close>. The result is
  the exception that leaves the loop, if one is raised, the set \<^verbatim>\<open>seen\<close> and the trace.
  \<^verbatim>\<open>msg.get\<close> exists on a dict only (\<^verbatim>\<open>AttributeError\<close> otherwise); \<^verbatim>\<open>not mid\<close> is
  tested before \<^verbatim>\<open>mid in seen\<close>, which hashes \<open>mid\<close>; an exception of
  \<^verbatim>\<open>send_message\<close> is caught and logged.
\<close>

definition poll_message ::
  "env \<Rightarrow> int \<Rightarrow> string \<Rightarrow> json \<Rightarrow> key set \<Rightarrow> event list \<Rightarrow> py_error option \<times> key set \<times> event list"
where
  "poll_message e user_id address msg sn tr =
     (case msg of
        JObj kvs \<Rightarrow>
          (let mid = dict_get kvs ''id'' JNull
           in if \<not> truthy mid then (None, sn, tr)
              else (case hash_key mid of
                      None \<Rightarrow> (Some TypeError, sn, tr)
                    | Some k \<Rightarrow>
                        if k \<in> sn then (None, sn, tr)
                        else
                          (let subj = dict_get kvs ''subject'' (JStr ''(no subject)'');
                               frm = dict_get kvs ''from'' (JStr ''unknown'');
                               date = dict_get kvs ''date'' (JStr []);
                               text = new_mail_text e subj frm date
                           in case send_message e tr user_id text (callback_data e address mid) of
                                None \<Rightarrow>
                                  (None, insert k sn,
                                   tr @ [SendMessage user_id text address mid True])
                              | Some failure \<Rightarrow>
                                  (None, sn,
                                   tr @ [SendMessage user_id text address mid False]))))
      | _ \<Rightarrow> (Some AttributeError, sn, tr))"

text \<open>The loop \<^verbatim>\<open>for msg in messages\<close>: an exception ends it.\<close>

fun poll_messages ::
  "env \<Rightarrow> int \<Rightarrow> string \<Rightarrow> json list \<Rightarrow> key set \<Rightarrow> event list \<Rightarrow> py_error option \<times> key set \<times> event list"
where
  "poll_messages e user_id address [] sn tr = (None, sn, tr)"
| "poll_messages e user_id address (msg # msgs) sn tr =
     (case poll_message e user_id address msg sn tr of
        (Some err, sn', tr') \<Rightarrow> (Some err, sn', tr')
      | (None, sn', tr') \<Rightarrow> poll_messages e user_id address msgs sn' tr')"

text \<open>
  Lines 129 to 134: which value the loop runs over. \<open>None\<close> is the \<^verbatim>\<open>continue\<close> of the
  last branch.
\<close>

definition select_messages :: "json \<Rightarrow> json option" where
  "select_messages mails =
     (case mails of
        JObj kvs \<Rightarrow> map_of kvs ''messages''
      | JList xs \<Rightarrow> Some (JList xs)
      | _ \<Rightarrow> None)"

text \<open>
  Lines 125 to 153, the body of the loop over the registry's entries, for one entry. The
  set \<^verbatim>\<open>seen\<close> is changed in place, so what has been added to it stays when an exception
  is raised.
\<close>

definition poll_mailbox ::
  "env \<Rightarrow> int \<Rightarrow> mailbox \<Rightarrow> event list \<Rightarrow> py_error option \<times> mailbox \<times> event list"
where
  "poll_mailbox e user_id mb tr =
     (let (mails, tr1) = fetch_mailcx e tr (email mb) None
      in case select_messages mails of
           None \<Rightarrow> (None, mb, tr1)
         | Some messages \<Rightarrow>
             (case py_iter messages of
                Inl err \<Rightarrow> (Some err, mb, tr1)
              | Inr msgs \<Rightarrow>
                  (let (r, sn, tr2) = poll_messages e user_id (email mb) msgs (seen mb) tr1
                   in (r, mb\<lparr>seen := sn\<rparr>, tr2))))"

text \<open>
  Line 124: the loop over \<^verbatim>\<open>list(USER_MAILBOXES.items())\<close>. An exception ends it and
  leaves the entries behind the failing one as they were.
\<close>

fun poll_entries ::
  "env \<Rightarrow> (int \<times> mailbox) list \<Rightarrow> event list \<Rightarrow> py_error option \<times> (int \<times> mailbox) list \<times> event list"
where
  "poll_entries e [] tr = (None, [], tr)"
| "poll_entries e ((user_id, mb) # rest) tr =
     (case poll_mailbox e user_id mb tr of
        (Some err, mb', tr') \<Rightarrow> (Some err, (user_id, mb') # rest, tr')
      | (None, mb', tr') \<Rightarrow>
          (let (r, rest', tr'') = poll_entries e rest tr'
           in (r, (user_id, mb') # rest', tr'')))"

text \<open>
  One round of \<^verbatim>\<open>while True\<close>: the loop over the entries, then the sleep. An exception
  leaves \<^verbatim>\<open>poll_inboxes\<close>, and the task is over.
\<close>

definition poll_round :: "env \<Rightarrow> world \<Rightarrow> world" where
  "poll_round e w =
     (case poll_entries e (USER_MAILBOXES w) (trace w) of
        (Some err, mbs, tr) \<Rightarrow> w\<lparr>USER_MAILBOXES := mbs, trace := tr, task := Some err\<rparr>
      | (None, mbs, tr) \<Rightarrow> w\<lparr>USER_MAILBOXES := mbs, trace := tr @ [Sleep POLL_INTERVAL]\<rparr>)"

text \<open>
  \<^verbatim>\<open>poll_inboxes\<close> never returns by itself. \<open>poll_inboxes e n w\<close> is the state after at most
  \<open>n\<close> rounds: it stops before that only when a round has raised.
\<close>

fun poll_inboxes :: "env \<Rightarrow> nat \<Rightarrow> world \<Rightarrow> world" where
  "poll_inboxes e 0 w = w"
| "poll_inboxes e (Suc n) w =
     (let w' = poll_round e w in if task w' = None then poll_inboxes e n w' else w')"

section \<open>The running bot\<close>

text \<open>
  The handlers and the background task share one event loop. A run of the bot is a list
  of actions: a round of the poll loop (which does nothing once the task is over), a
  generate command of a user with the draws of the random generator, or a view action
  with its token. The model takes a round as one step: a command runs between two rounds,
  not while a round waits for the network. Its runs are therefore the schedules of the
  bot in which every command arrives while the background task sleeps; a schedule in which
  a command arrives in the middle of a round is not among them.
\<close>

datatype action = Tick | Generate int rand | View string

fun step :: "env \<Rightarrow> world \<Rightarrow> action \<Rightarrow> world" where
  "step e w Tick = (if task w = None then poll_round e w else w)"
| "step e w (Generate user_id r) = cmd_generate user_id r w"
| "step e w (View token) = w\<lparr>trace := callback_view_message e token (trace w)\<rparr>"

fun run :: "env \<Rightarrow> world \<Rightarrow> action list \<Rightarrow> world" where
  "run e w [] = w"
| "run e w (a # as) = run e (step e w a) as"

section \<open>Reading a trace\<close>

text \<open>
  What a trace tells about the deliveries to one user. \<open>note_event uid d ev\<close> brings the
  set \<open>d\<close> of the keys delivered to \<open>uid\<close> up to date with the event \<open>ev\<close>: a
  \<^verbatim>\<open>send_message\<close> call to \<open>uid\<close> that returned adds the key of its message id, the reply
  of a generate command of \<open>uid\<close> starts a new subscription with nothing delivered, and
  no other event counts. \<open>delivered uid tr\<close> is the set at the end of the trace \<open>tr\<close>.
\<close>

fun note_event :: "int \<Rightarrow> key set \<Rightarrow> event \<Rightarrow> key set" where
  "note_event uid d (SendMessage u t a mid ok) =
     (if u = uid \<and> ok then (case hash_key mid of Some k \<Rightarrow> insert k d | None \<Rightarrow> d) else d)"
| "note_event uid d (ReplyText u t) = (if u = uid then {} else d)"
| "note_event uid d ev = d"

definition delivered :: "int \<Rightarrow> event list \<Rightarrow> key set" where
  "delivered uid tr = foldl (note_event uid) {} tr"

text \<open>
  \<open>no_repeat uid d evs\<close>: in the events \<open>evs\<close>, which follow a trace with the delivered
  keys \<open>d\<close>, no \<^verbatim>\<open>send_message\<close> call to \<open>uid\<close> is made for a message id whose key has been
  delivered to \<open>uid\<close>'s current subscription before that call.
\<close>

fun no_repeat :: "int \<Rightarrow> key set \<Rightarrow> event list \<Rightarrow> bool" where
  "no_repeat uid d [] = True"
| "no_repeat uid d (SendMessage u t a mid ok # evs) =
     ((u \<noteq> uid \<or> hash_key mid \<notin> Some ` d)
      \<and> no_repeat uid (note_event uid d (SendMessage u t a mid ok)) evs)"
| "no_repeat uid d (ev # evs) = no_repeat uid (note_event uid d ev) evs"

text \<open>
  Three classes of events: those that concern a user (a message sent to the user, the
  reply to the user's generate command), the messages sent to a user for an address, and
  the events that one pass of the poll loop over the entries \<open>mbs\<close> can make (a request
  for the address of an entry, a message to the user of an entry for its address).
\<close>

fun concerns :: "int \<Rightarrow> event \<Rightarrow> bool" where
  "concerns uid (SendMessage u t a mid ok) = (u = uid)"
| "concerns uid (ReplyText u t) = (u = uid)"
| "concerns uid ev = False"

fun is_send_to :: "int \<Rightarrow> string \<Rightarrow> event \<Rightarrow> bool" where
  "is_send_to uid address (SendMessage u t a mid ok) = (u = uid \<and> a = address)"
| "is_send_to uid address ev = False"

fun polled_by :: "(int \<times> mailbox) list \<Rightarrow> event \<Rightarrow> bool" where
  "polled_by mbs (Get url) = (url \<in> (\<lambda>p. mailcx_url (email (snd p)) None) ` set mbs)"
| "polled_by mbs (SendMessage u t a mid ok) = ((u, a) \<in> (\<lambda>p. (fst p, email (snd p))) ` set mbs)"
| "polled_by mbs ev = False"

text \<open>
  The bookkeeping agrees with the trace: the users of the registry are distinct, the set
  \<^verbatim>\<open>seen\<close> of each user holds exactly the keys delivered to the user's current
  subscription, and no delivered key has been sent again.
\<close>

definition consistent :: "(int \<times> mailbox) list \<Rightarrow> event list \<Rightarrow> bool" where
  "consistent mbs tr \<longleftrightarrow>
     distinct (map fst mbs)
     \<and> (\<forall>p \<in> set mbs. seen (snd p) = delivered (fst p) tr)
     \<and> (\<forall>uid. no_repeat uid {} tr)"

text \<open>Whether an action is a generate command of the user \<open>uid\<close>.\<close>

fun generates :: "int \<Rightarrow> action \<Rightarrow> bool" where
  "generates uid (Generate u r) = (u = uid)"
| "generates uid a = False"

text \<open>The addresses the registry holds for the user \<open>uid\<close>.\<close>

definition addresses_of :: "int \<Rightarrow> world \<Rightarrow> string list" where
  "addresses_of uid w = map (\<lambda>p. email (snd p)) (filter (\<lambda>p. fst p = uid) (USER_MAILBOXES w))"

section \<open>Concrete environments and inputs\<close>

text \<open>
  An environment whose provider always answers in the same way and whose chat platform
  accepts every message.
\<close>

definition quiet_env :: "http_outcome \<Rightarrow> env" where
  "quiet_env out =
     \<lparr>http_get = (\<lambda>tr url. out), send_message = (\<lambda>tr uid text cb. None), repr = (\<lambda>v. [])\<rparr>"

text \<open>The message of the specification's view scenario.\<close>

definition SFB :: json where
  "SFB = JObj [(''subject'', JStr ''S''), (''from'', JStr ''F''), (''body'', JStr ''B'')]"

text \<open>What \<open>message_text\<close> makes of a dict that has none of the three fields.\<close>

definition NO_FIELDS_TEXT :: string where
  "NO_FIELDS_TEXT = ''*Subject:* (no subject)'' @ [CHR 0x0A] @ ''*From:* unknown''
      @ [CHR 0x0A, CHR 0x0A] @ ''(no body)''"

text \<open>The message of the specification's poll scenario, and a fresh mailbox.\<close>

definition M1 :: json where
  "M1 = JObj [(''id'', JStr ''m1''), (''subject'', JStr ''Hi''), (''from'', JStr ''x@y.com'')]"

definition box :: "string \<Rightarrow> mailbox" where
  "box a = \<lparr>email = a, seen = {}\<rparr>"

text \<open>A message whose id is the number zero.\<close>

definition ZERO_ID :: json where
  "ZERO_ID = JObj [(''id'', JInt 0), (''subject'', JStr ''Hi'')]"

text \<open>
  An environment whose provider always lists the message \<open>M1\<close> and whose chat platform
  refuses a message while fewer than three calls have been made and accepts it afterwards.
\<close>

definition flaky_env :: env where
  "flaky_env =
     \<lparr>http_get = (\<lambda>tr url. Response 200 [] (Some (JObj [(''messages'', JList [M1])]))),
      send_message = (\<lambda>tr uid text cb. if length tr < 3 then Some ''unreachable'' else None),
      repr = (\<lambda>v. [])\<rparr>"

definition M1_TEXT :: string where
  "M1_TEXT = new_mail_text flaky_env (JStr ''Hi'') (JStr ''x@y.com'') (JStr [])"

section \<open>Properties of the address generator\<close>

lemma choice_mem: "xs \<noteq> [] \<Longrightarrow> fst (choice xs r) \<in> set xs"
  by (simp add: choice_def)

lemma choices_length: "length (fst (choices n xs r)) = n"
  by (induction n arbitrary: r) (simp_all add: split_beta Let_def)

lemma choices_mem: "xs \<noteq> [] \<Longrightarrow> set (fst (choices n xs r)) \<subseteq> set xs"
proof (induction n arbitrary: r)
  case 0
  then show ?case by simp
next
  case (Suc n)
  have "fst (choice xs r) \<in> set xs"
    using Suc.prems by (rule choice_mem)
  moreover have "set (fst (choices n xs (snd (choice xs r)))) \<subseteq> set xs"
    using Suc.prems by (rule Suc.IH)
  ultimately show ?case
    by (simp add: split_beta Let_def)
qed

lemma username_length:
  "length (fst (make_random_username r)) = 6 \<or> length (fst (make_random_username r)) = 7"
proof -
  have "fst (choice [USERNAME_MIN, USERNAME_MAX] r) \<in> {6, 7}"
    using choice_mem [of "[USERNAME_MIN, USERNAME_MAX]" r]
    by (simp add: USERNAME_MIN_def USERNAME_MAX_def)
  then show ?thesis
    by (auto simp: make_random_username_def split_beta Let_def choices_length)
qed

lemma username_first:
  "hd (fst (make_random_username r)) \<in> set ascii_lowercase"
proof -
  have "ascii_lowercase \<noteq> []"
    by (simp add: ascii_lowercase_def)
  then show ?thesis
    by (simp add: make_random_username_def split_beta Let_def choice_mem)
qed

lemma username_chars:
  "set (fst (make_random_username r)) \<subseteq> set ascii_lowercase \<union> set digits"
proof -
  have ne: "ascii_lowercase \<noteq> []" "ascii_lowercase @ digits \<noteq> []"
    by (simp_all add: ascii_lowercase_def)
  have "set (fst (choices n (ascii_lowercase @ digits) r')) \<subseteq> set ascii_lowercase \<union> set digits"
    for n r'
    using choices_mem [OF ne(2), of n r'] by simp
  moreover have "fst (choice ascii_lowercase r') \<in> set ascii_lowercase" for r'
    using ne(1) by (rule choice_mem)
  ultimately show ?thesis
    by (auto simp: make_random_username_def split_beta Let_def)
qed

text \<open>
  Claim C8. Whatever the random generator draws, the local part that
  \<^verbatim>\<open>make_random_username\<close> returns has 6 or 7 characters, its first character is a
  lowercase letter, every character is a lowercase letter or a digit, and the address
  built from it is the local part followed by \<^verbatim>\<open>@nqmo.com\<close>.
\<close>

theorem C8_generated_address_shape:
  "(length (fst (make_random_username r)) = 6 \<or> length (fst (make_random_username r)) = 7)
   \<and> hd (fst (make_random_username r)) \<in> set ''abcdefghijklmnopqrstuvwxyz''
   \<and> set (fst (make_random_username r))
       \<subseteq> set ''abcdefghijklmnopqrstuvwxyz'' \<union> set ''0123456789''
   \<and> make_email (fst (make_random_username r)) = fst (make_random_username r) @ ''@nqmo.com''"
proof -
  have "make_email u = u @ ''@nqmo.com''" for u
    by (simp add: make_email_def DEFAULT_DOMAIN_def)
  then show ?thesis
    using username_length [of r] username_first [of r] username_chars [of r]
    unfolding ascii_lowercase_def digits_def by blast
qed

section \<open>Properties of the view action\<close>

lemma split1_nosep: "sep \<notin> set s \<Longrightarrow> split1 sep s = [s]"
proof -
  assume "sep \<notin> set s"
  then have d: "dropWhile (\<lambda>c. c \<noteq> sep) s = []" by auto
  show ?thesis unfolding split1_def d by simp
qed

lemma split1_sep: "sep \<notin> set a \<Longrightarrow> split1 sep (a @ sep # m) = [a, m]"
proof -
  assume a: "sep \<notin> set a"
  then have d: "dropWhile (\<lambda>c. c \<noteq> sep) (a @ sep # m) = sep # m"
    by (simp add: dropWhile_append)
  from a have t: "takeWhile (\<lambda>c. c \<noteq> sep) (a @ sep # m) = a"
    by (simp add: takeWhile_append)
  show ?thesis unfolding split1_def d t by simp
qed

lemma truncate_text_length: "length (truncate_text t) \<le> 3800 + length TRUNCATED"
  by (simp add: truncate_text_def)

lemma view_message_shape:
  "view_message e a m tr =
     tr @ [Get (mailcx_url a (Some m)),
           EditMessageText (truncate_text (message_text e (fst (fetch_mailcx e tr a (Some m)))))]"
  by (simp add: view_message_def fetch_mailcx_def Let_def)

lemma callback_sep:
  "CHR ''|'' \<notin> set a \<Longrightarrow>
   callback_view_message e (a @ CHR ''|'' # m) tr = view_message e a m (tr @ [Answer])"
  by (simp add: callback_view_message_def split1_sep)

lemma callback_nosep:
  "CHR ''|'' \<notin> set d \<Longrightarrow>
   callback_view_message e d tr = tr @ [Answer, EditMessageText INVALID_DATA]"
  by (simp add: callback_view_message_def split1_nosep)

text \<open>
  Claim C9. The handler cuts the token at its first \<^verbatim>\<open>|\<close> only. A token \<open>a|m\<close> whose
  part \<open>a\<close> has no separator is fetched with address \<open>a\<close> and message id \<open>m\<close>, whatever
  \<open>m\<close> holds, further separators included: the request goes to the URL of \<open>a\<close> and \<open>m\<close> and
  the fetched message is shown. The handler answers with the invalid-data text and nothing
  else exactly when the token has no separator at all.
\<close>

theorem C9_view_token_split:
  "((callback_view_message e t tr = tr @ [Answer, EditMessageText INVALID_DATA])
      = (CHR ''|'' \<notin> set t))
   \<and> (CHR ''|'' \<notin> set a \<longrightarrow>
        callback_view_message e (a @ CHR ''|'' # m) tr =
          tr @ [Answer, Get (mailcx_url a (Some m)),
                EditMessageText (truncate_text (message_text e
                  (fst (fetch_mailcx e (tr @ [Answer]) a (Some m)))))])"
proof -
  have "callback_view_message e t tr \<noteq> tr @ [Answer, EditMessageText INVALID_DATA]"
    if "CHR ''|'' \<in> set t"
  proof -
    from that obtain a m where t: "t = a @ CHR ''|'' # m" and a: "CHR ''|'' \<notin> set a"
      by (meson split_list_first)
    have "length (callback_view_message e t tr) = length tr + 3"
      by (simp add: t callback_sep [OF a] view_message_shape)
    then show ?thesis by auto
  qed
  then have "(callback_view_message e t tr = tr @ [Answer, EditMessageText INVALID_DATA])
      = (CHR ''|'' \<notin> set t)"
    using callback_nosep [of t e tr] by blast
  then show ?thesis
    by (simp add: callback_sep view_message_shape)
qed

text \<open>The token \<^verbatim>\<open>garbage\<close> and a token with two separators.\<close>

theorem C9_view_token_split_witness:
  "callback_view_message (quiet_env (GetRaises ''timeout'')) ''garbage'' []
     = [Answer, EditMessageText INVALID_DATA]
   \<and> callback_view_message (quiet_env (GetRaises ''timeout'')) ''abc123@nqmo.com|m1|x'' [] =
       [Answer, Get (mailcx_url ''abc123@nqmo.com'' (Some ''m1|x'')),
        EditMessageText (truncate_text (message_text (quiet_env (GetRaises ''timeout''))
          (fst (fetch_mailcx (quiet_env (GetRaises ''timeout'')) [Answer]
                  ''abc123@nqmo.com'' (Some ''m1|x'')))))]"
  using C9_view_token_split [of "quiet_env (GetRaises ''timeout'')" "''garbage''" "[]"
      "''abc123@nqmo.com''" "''m1|x''"]
  by simp

lemma message_text_error:
  "message_text e (JObj [(''error'', JStr msg)]) = NO_FIELDS_TEXT"
  by (simp add: message_text_def dict_get_def NO_FIELDS_TEXT_def)

lemma truncate_text_short: "length t \<le> 3800 \<Longrightarrow> truncate_text t = t"
  by (simp add: truncate_text_def)

text \<open>
  Claim C10. When the request of a view action raises (or the reading of its body does),
  \<^verbatim>\<open>fetch_mailcx\<close> returns a dict whose only field is \<^verbatim>\<open>error\<close>, and the handler shows
  it as a message with the three placeholders: subject \<^verbatim>\<open>(no subject)\<close>, from
  \<^verbatim>\<open>unknown\<close>, body \<^verbatim>\<open>(no body)\<close>. The exception's text is not shown, and the handler
  ends normally.
\<close>

theorem C10_failed_fetch_shown_as_placeholders:
  assumes "http_get e (tr @ [Answer]) (mailcx_url a (Some m)) = GetRaises msg
           \<or> http_get e (tr @ [Answer]) (mailcx_url a (Some m)) = TextRaises status msg"
    and "CHR ''|'' \<notin> set a"
  shows "fetch_mailcx e (tr @ [Answer]) a (Some m) =
           (JObj [(''error'', JStr msg)], tr @ [Answer, Get (mailcx_url a (Some m))])
         \<and> callback_view_message e (a @ CHR ''|'' # m) tr =
           tr @ [Answer, Get (mailcx_url a (Some m)),
                 EditMessageText (''*Subject:* (no subject)'' @ [CHR 0x0A] @ ''*From:* unknown''
                    @ [CHR 0x0A, CHR 0x0A] @ ''(no body)'')]"
proof -
  have f: "fetch_mailcx e (tr @ [Answer]) a (Some m) =
           (JObj [(''error'', JStr msg)], tr @ [Answer, Get (mailcx_url a (Some m))])"
    using assms(1) by (auto simp: fetch_mailcx_def Let_def)
  have "truncate_text NO_FIELDS_TEXT = NO_FIELDS_TEXT"
    by (rule truncate_text_short) (simp add: NO_FIELDS_TEXT_def)
  then have "callback_view_message e (a @ CHR ''|'' # m) tr =
           tr @ [Answer, Get (mailcx_url a (Some m)), EditMessageText NO_FIELDS_TEXT]"
    by (simp add: callback_sep [OF assms(2)] view_message_shape f message_text_error)
  with f show ?thesis
    by (simp add: NO_FIELDS_TEXT_def)
qed

text \<open>A provider that times out.\<close>

theorem C10_failed_fetch_shown_as_placeholders_witness:
  "callback_view_message (quiet_env (GetRaises ''timeout'')) ''abc123@nqmo.com|m1'' [] =
     [Answer, Get (mailcx_url ''abc123@nqmo.com'' (Some ''m1'')),
      EditMessageText (''*Subject:* (no subject)'' @ [CHR 0x0A] @ ''*From:* unknown''
         @ [CHR 0x0A, CHR 0x0A] @ ''(no body)'')]"
  using C10_failed_fetch_shown_as_placeholders [of "quiet_env (GetRaises ''timeout'')" "[]"
      "''abc123@nqmo.com''" "''m1''" "''timeout''" 0]
  by (simp add: quiet_env_def)


lemma message_text_dict:
  "message_text e (JObj kvs) =
     ''*Subject:* '' @ py_str (repr e) (dict_get kvs ''subject'' (JStr ''(no subject)''))
       @ [CHR 0x0A] @ ''*From:* '' @ py_str (repr e) (dict_get kvs ''from'' (JStr ''unknown''))
       @ [CHR 0x0A, CHR 0x0A] @ py_str (repr e) (dict_get kvs ''body'' (JStr ''(no body)''))"
  by (simp add: message_text_def Let_def)

lemma fetch_mailcx_decoded:
  "http_get e tr (mailcx_url a mid) = Response status body (Some v) \<Longrightarrow>
   fetch_mailcx e tr a mid = (v, tr @ [Get (mailcx_url a mid)])"
  by (simp add: fetch_mailcx_def Let_def)

text \<open>
  Claim C6. A token without separator gets the invalid-data text and no request is made.
  A token \<open>a|m\<close> causes exactly one request, for the message \<open>m\<close> of the address \<open>a\<close>, and
  one text is shown, never longer than 3800 characters plus the truncation marker. When
  the provider returns a dict, the text is the subject, sender and body (a placeholder for
  a missing one) in their fixed frame, cut after 3800 characters with the marker appended
  when it is longer than that.
\<close>

theorem C6_view_action:
  assumes "CHR ''|'' \<notin> set t" and "CHR ''|'' \<notin> set a"
  shows "callback_view_message e t tr = tr @ [Answer, EditMessageText INVALID_DATA]
    \<and> (\<exists>text. callback_view_message e (a @ CHR ''|'' # m) tr =
           tr @ [Answer, Get (mailcx_url a (Some m)), EditMessageText text]
         \<and> length text \<le> 3800 + length (CHR 0x0A # ''...truncated...''))
    \<and> (http_get e (tr @ [Answer]) (mailcx_url a (Some m)) = Response status body (Some (JObj kvs))
         \<longrightarrow> (let full = ''*Subject:* ''
                     @ py_str (repr e) (dict_get kvs ''subject'' (JStr ''(no subject)''))
                     @ [CHR 0x0A] @ ''*From:* ''
                     @ py_str (repr e) (dict_get kvs ''from'' (JStr ''unknown''))
                     @ [CHR 0x0A, CHR 0x0A]
                     @ py_str (repr e) (dict_get kvs ''body'' (JStr ''(no body)''))
              in callback_view_message e (a @ CHR ''|'' # m) tr =
                   tr @ [Answer, Get (mailcx_url a (Some m)),
                         EditMessageText (if 3800 < length full
                            then take 3800 full @ CHR 0x0A # ''...truncated...'' else full)]))"
proof -
  have 1: "callback_view_message e t tr = tr @ [Answer, EditMessageText INVALID_DATA]"
    using assms(1) by (rule callback_nosep)
  have v: "callback_view_message e (a @ CHR ''|'' # m) tr =
      tr @ [Answer, Get (mailcx_url a (Some m)),
            EditMessageText (truncate_text (message_text e
               (fst (fetch_mailcx e (tr @ [Answer]) a (Some m)))))]"
    by (simp add: callback_sep [OF assms(2)] view_message_shape)
  have 2: "\<exists>text. callback_view_message e (a @ CHR ''|'' # m) tr =
           tr @ [Answer, Get (mailcx_url a (Some m)), EditMessageText text]
         \<and> length text \<le> 3800 + length (CHR 0x0A # ''...truncated...'')"
    using v truncate_text_length [of "message_text e (fst (fetch_mailcx e (tr @ [Answer]) a (Some m)))"]
    by (simp add: TRUNCATED_def)
  have 3: "callback_view_message e (a @ CHR ''|'' # m) tr =
      tr @ [Answer, Get (mailcx_url a (Some m)),
            EditMessageText (truncate_text (message_text e (JObj kvs)))]"
    if "http_get e (tr @ [Answer]) (mailcx_url a (Some m)) = Response status body (Some (JObj kvs))"
    using v fetch_mailcx_decoded [OF that] by simp
  show ?thesis
    using 1 2 3 unfolding message_text_dict truncate_text_def TRUNCATED_def Let_def by blast
qed

text \<open>The specification's scenario: token \<^verbatim>\<open>abc123@nqmo.com|m1\<close>, fields S, F and B.\<close>

theorem C6_view_action_witness:
  "callback_view_message (quiet_env (Response 200 [] (Some SFB))) ''garbage'' []
     = [Answer, EditMessageText INVALID_DATA]
   \<and> callback_view_message (quiet_env (Response 200 [] (Some SFB))) ''abc123@nqmo.com|m1'' [] =
       [Answer, Get (mailcx_url ''abc123@nqmo.com'' (Some ''m1'')),
        EditMessageText (''*Subject:* S'' @ [CHR 0x0A] @ ''*From:* F'' @ [CHR 0x0A, CHR 0x0A] @ ''B'')]"
  using C6_view_action [of "''garbage''" "''abc123@nqmo.com''"
      "quiet_env (Response 200 [] (Some SFB))" "[]" "''m1''" 200 "[]"
      "[(''subject'', JStr ''S''), (''from'', JStr ''F''), (''body'', JStr ''B'')]"]
  by (simp add: quiet_env_def SFB_def dict_get_def)

section \<open>Properties of one pass over a mailbox\<close>

lemma poll_message_no_id:
  "map_of kvs ''id'' = None \<or> (\<exists>v. map_of kvs ''id'' = Some v \<and> \<not> truthy v) \<Longrightarrow>
   poll_message e uid a (JObj kvs) sn tr = (None, sn, tr)"
  by (auto simp: poll_message_def dict_get_def)

lemma poll_messages_append:
  "poll_messages e uid a (xs @ ys) sn tr =
     (case poll_messages e uid a xs sn tr of
        (Some err, sn', tr') \<Rightarrow> (Some err, sn', tr')
      | (None, sn', tr') \<Rightarrow> poll_messages e uid a ys sn' tr')"
  by (induction xs arbitrary: sn tr) (auto split: prod.splits option.splits)

text \<open>
  Claim C4. A message of the provider's list that has no \<^verbatim>\<open>id\<close> field, or whose
  \<^verbatim>\<open>id\<close> is false-valued (\<^verbatim>\<open>null\<close>, the empty string, zero), is passed over: no
  \<^verbatim>\<open>send_message\<close> call is made for it, the set \<^verbatim>\<open>seen\<close> stays as it is, no exception
  is raised, and the loop goes on with the messages behind it exactly as if the message
  had not been in the list.
\<close>

theorem C4_message_without_id:
  assumes "map_of kvs ''id'' = None \<or> (\<exists>v. map_of kvs ''id'' = Some v \<and> \<not> truthy v)"
  shows "poll_message e uid a (JObj kvs) sn tr = (None, sn, tr)
    \<and> poll_messages e uid a (before @ JObj kvs # rest) sn tr =
        poll_messages e uid a (before @ rest) sn tr"
proof -
  have m: "poll_message e uid a (JObj kvs) sn' tr' = (None, sn', tr')" for sn' tr'
    using assms by (rule poll_message_no_id)
  then have "poll_messages e uid a (JObj kvs # rest) sn' tr' = poll_messages e uid a rest sn' tr'"
    for sn' tr'
    by simp
  then have "poll_messages e uid a (before @ JObj kvs # rest) sn tr =
        poll_messages e uid a (before @ rest) sn tr"
    by (simp add: poll_messages_append split: prod.splits option.splits)
  with m show ?thesis by simp
qed

text \<open>A message with a subject only, in front of the message \<open>M1\<close>.\<close>

theorem C4_message_without_id_witness:
  "poll_message (quiet_env (GetRaises [])) 42 ''abc123@nqmo.com''
      (JObj [(''subject'', JStr ''Hi'')]) {} [] = (None, {}, [])
   \<and> poll_messages (quiet_env (GetRaises [])) 42 ''abc123@nqmo.com''
      ([] @ JObj [(''subject'', JStr ''Hi'')] # [M1]) {} [] =
     poll_messages (quiet_env (GetRaises [])) 42 ''abc123@nqmo.com'' ([] @ [M1]) {} []"
  using C4_message_without_id [of "[(''subject'', JStr ''Hi'')]" "quiet_env (GetRaises [])" 42
      "''abc123@nqmo.com''" "{}" "[]" "[]" "[M1]"]
  by simp

lemma fetch_mailcx_eq:
  "fetch_mailcx e tr a mid = (fst (fetch_mailcx e tr a mid), tr @ [Get (mailcx_url a mid)])"
  by (simp add: fetch_mailcx_def Let_def)

lemma poll_mailbox_unfold:
  "poll_mailbox e uid mb tr =
     (case select_messages (fst (fetch_mailcx e tr (email mb) None)) of
        None \<Rightarrow> (None, mb, tr @ [Get (mailcx_url (email mb) None)])
      | Some messages \<Rightarrow>
          (case py_iter messages of
             Inl err \<Rightarrow> (Some err, mb, tr @ [Get (mailcx_url (email mb) None)])
           | Inr msgs \<Rightarrow>
               (case poll_messages e uid (email mb) msgs (seen mb)
                       (tr @ [Get (mailcx_url (email mb) None)]) of
                  (r, sn, tr2) \<Rightarrow> (r, mb\<lparr>seen := sn\<rparr>, tr2))))"
  by (subst poll_mailbox_def, subst fetch_mailcx_eq) (simp add: Let_def split: option.splits sum.splits)

text \<open>
  Claim C5. What the poll loop takes as the messages of a fetched payload: the contents
  of the field \<^verbatim>\<open>messages\<close> when the payload is a dict that has it (here: a list), the
  payload itself when it is a list; every other payload (a dict without the field, a
  text, a number, \<^verbatim>\<open>null\<close>) is passed over like an empty list, with no
  \<^verbatim>\<open>send_message\<close> call, no change of \<^verbatim>\<open>seen\<close> and no exception.
\<close>

theorem C5_message_sequence:
  "(fst (fetch_mailcx e tr (email mb) None) = JObj kvs \<and> map_of kvs ''messages'' = Some (JList ms)
      \<longrightarrow> poll_mailbox e uid mb tr =
           (case poll_messages e uid (email mb) ms (seen mb)
                   (tr @ [Get (mailcx_url (email mb) None)]) of
              (r, sn, tr2) \<Rightarrow> (r, mb\<lparr>seen := sn\<rparr>, tr2)))
   \<and> (fst (fetch_mailcx e tr (email mb) None) = JList ms
      \<longrightarrow> poll_mailbox e uid mb tr =
           (case poll_messages e uid (email mb) ms (seen mb)
                   (tr @ [Get (mailcx_url (email mb) None)]) of
              (r, sn, tr2) \<Rightarrow> (r, mb\<lparr>seen := sn\<rparr>, tr2)))
   \<and> ((\<forall>xs. fst (fetch_mailcx e tr (email mb) None) \<noteq> JList xs)
       \<and> (\<forall>fs. fst (fetch_mailcx e tr (email mb) None) = JObj fs \<longrightarrow> map_of fs ''messages'' = None)
      \<longrightarrow> poll_mailbox e uid mb tr = (None, mb, tr @ [Get (mailcx_url (email mb) None)]))"
proof -
  have "select_messages v = None"
    if "\<forall>xs. v \<noteq> JList xs" and "\<forall>fs. v = JObj fs \<longrightarrow> map_of fs ''messages'' = None" for v
    using that by (cases v) (simp_all add: select_messages_def)
  then show ?thesis
    by (auto simp: poll_mailbox_unfold select_messages_def)
qed

text \<open>One payload of each of the three shapes.\<close>

theorem C5_message_sequence_witness:
  "poll_mailbox (quiet_env (Response 200 [] (Some (JObj [(''messages'', JList [M1])])))) 42
      (box ''abc123@nqmo.com'') [] =
     (case poll_messages (quiet_env (Response 200 [] (Some (JObj [(''messages'', JList [M1])]))))
              42 ''abc123@nqmo.com'' [M1] {} [Get (mailcx_url ''abc123@nqmo.com'' None)] of
        (r, sn, tr2) \<Rightarrow> (r, box ''abc123@nqmo.com''\<lparr>seen := sn\<rparr>, tr2))
   \<and> poll_mailbox (quiet_env (Response 200 [] (Some (JList [M1])))) 42
      (box ''abc123@nqmo.com'') [] =
     (case poll_messages (quiet_env (Response 200 [] (Some (JList [M1]))))
              42 ''abc123@nqmo.com'' [M1] {} [Get (mailcx_url ''abc123@nqmo.com'' None)] of
        (r, sn, tr2) \<Rightarrow> (r, box ''abc123@nqmo.com''\<lparr>seen := sn\<rparr>, tr2))
   \<and> poll_mailbox (quiet_env (Response 200 [] (Some (JObj [(''count'', JInt 0)])))) 42
      (box ''abc123@nqmo.com'') [] =
     (None, box ''abc123@nqmo.com'', [Get (mailcx_url ''abc123@nqmo.com'' None)])"
  using
    C5_message_sequence [of "quiet_env (Response 200 [] (Some (JObj [(''messages'', JList [M1])])))"
      "[]" "box ''abc123@nqmo.com''" "[(''messages'', JList [M1])]" "[M1]" 42]
    C5_message_sequence [of "quiet_env (Response 200 [] (Some (JList [M1])))"
      "[]" "box ''abc123@nqmo.com''" "[]" "[M1]" 42]
    C5_message_sequence [of "quiet_env (Response 200 [] (Some (JObj [(''count'', JInt 0)])))"
      "[]" "box ''abc123@nqmo.com''" "[]" "[]" 42]
  by (simp add: fetch_mailcx_def quiet_env_def box_def)

section \<open>What a pass of the poll loop adds to the trace\<close>

text \<open>
  One message either leaves the set \<^verbatim>\<open>seen\<close> and the trace as they are, or makes one
  \<^verbatim>\<open>send_message\<close> call for an id whose key is not in \<^verbatim>\<open>seen\<close>, and adds the key when
  the call returned.
\<close>

lemma poll_message_result:
  "(\<exists>r. poll_message e uid a msg sn tr = (r, sn, tr))
   \<or> (\<exists>t mid k ok. hash_key mid = Some k \<and> k \<notin> sn
        \<and> poll_message e uid a msg sn tr =
            (None, if ok then insert k sn else sn, tr @ [SendMessage uid t a mid ok]))"
proof (cases msg)
  case (JObj kvs)
  let ?mid = "dict_get kvs ''id'' JNull"
  let ?t = "new_mail_text e (dict_get kvs ''subject'' (JStr ''(no subject)''))
              (dict_get kvs ''from'' (JStr ''unknown'')) (dict_get kvs ''date'' (JStr []))"
  show ?thesis
  proof (cases "truthy ?mid \<and> (\<exists>k. hash_key ?mid = Some k \<and> k \<notin> sn)")
    case True
    then obtain k where k: "hash_key ?mid = Some k" "k \<notin> sn" and t: "truthy ?mid"
      by blast
    let ?ok = "send_message e tr uid ?t (callback_data e a ?mid) = None"
    have "poll_message e uid a msg sn tr =
            (None, if ?ok then insert k sn else sn, tr @ [SendMessage uid ?t a ?mid ?ok])"
      using k t by (simp add: JObj poll_message_def Let_def split: option.splits)
    with k show ?thesis by blast
  next
    case False
    then have "\<exists>r. poll_message e uid a msg sn tr = (r, sn, tr)"
      by (auto simp: JObj poll_message_def Let_def split: option.splits)
    then show ?thesis ..
  qed
qed (simp_all add: poll_message_def)

lemma foldl_note_append:
  "foldl (note_event uid) d (xs @ ys) = foldl (note_event uid) (foldl (note_event uid) d xs) ys"
  by simp

lemma no_repeat_append:
  "no_repeat uid d (xs @ ys) =
     (no_repeat uid d xs \<and> no_repeat uid (foldl (note_event uid) d xs) ys)"
  by (induction uid d xs rule: no_repeat.induct) simp_all

lemma poll_message_sends:
  "\<exists>r evs. poll_message e uid a msg sn tr = (r, foldl (note_event uid) sn evs, tr @ evs)
     \<and> list_all (is_send_to uid a) evs \<and> no_repeat uid sn evs"
proof -
  consider (same) r where "poll_message e uid a msg sn tr = (r, sn, tr)"
    | (sent) t mid k ok where "hash_key mid = Some k" "k \<notin> sn"
        "poll_message e uid a msg sn tr =
            (None, if ok then insert k sn else sn, tr @ [SendMessage uid t a mid ok])"
    using poll_message_result [of e uid a msg sn tr] by blast
  then show ?thesis
  proof cases
    case same
    then have "poll_message e uid a msg sn tr = (r, foldl (note_event uid) sn [], tr @ [])
       \<and> list_all (is_send_to uid a) [] \<and> no_repeat uid sn []"
      by simp
    then show ?thesis by blast
  next
    case sent
    let ?evs = "[SendMessage uid t a mid ok]"
    have "poll_message e uid a msg sn tr = (None, foldl (note_event uid) sn ?evs, tr @ ?evs)
       \<and> list_all (is_send_to uid a) ?evs \<and> no_repeat uid sn ?evs"
      using sent by auto
    then show ?thesis by blast
  qed
qed

lemma poll_messages_sends:
  "\<exists>r evs. poll_messages e uid a msgs sn tr = (r, foldl (note_event uid) sn evs, tr @ evs)
     \<and> list_all (is_send_to uid a) evs \<and> no_repeat uid sn evs"
proof (induction msgs arbitrary: sn tr)
  case Nil
  have "poll_messages e uid a [] sn tr = (None, foldl (note_event uid) sn [], tr @ [])
     \<and> list_all (is_send_to uid a) [] \<and> no_repeat uid sn []"
    by simp
  then show ?case by blast
next
  case (Cons msg msgs)
  obtain r1 evs1 where 1:
    "poll_message e uid a msg sn tr = (r1, foldl (note_event uid) sn evs1, tr @ evs1)"
    "list_all (is_send_to uid a) evs1" "no_repeat uid sn evs1"
    using poll_message_sends [of e uid a msg sn tr] by blast
  show ?case
  proof (cases r1)
    case (Some err)
    with 1 have "poll_messages e uid a (msg # msgs) sn tr =
        (Some err, foldl (note_event uid) sn evs1, tr @ evs1)"
      by simp
    with 1 show ?thesis by blast
  next
    case None
    obtain r2 evs2 where 2:
      "poll_messages e uid a msgs (foldl (note_event uid) sn evs1) (tr @ evs1) =
         (r2, foldl (note_event uid) (foldl (note_event uid) sn evs1) evs2, (tr @ evs1) @ evs2)"
      "list_all (is_send_to uid a) evs2" "no_repeat uid (foldl (note_event uid) sn evs1) evs2"
      using Cons.IH [of "foldl (note_event uid) sn evs1" "tr @ evs1"] by blast
    have "poll_messages e uid a (msg # msgs) sn tr =
        (r2, foldl (note_event uid) sn (evs1 @ evs2), tr @ (evs1 @ evs2))"
      using 1(1) 2(1) None by simp
    moreover have "list_all (is_send_to uid a) (evs1 @ evs2)"
      using 1(2) 2(2) by simp
    moreover have "no_repeat uid sn (evs1 @ evs2)"
      using 1(3) 2(3) by (simp add: no_repeat_append)
    ultimately show ?thesis by blast
  qed
qed

lemma poll_mailbox_sends:
  "\<exists>r evs. poll_mailbox e uid mb tr =
       (r, mb\<lparr>seen := foldl (note_event uid) (seen mb) evs\<rparr>,
        tr @ Get (mailcx_url (email mb) None) # evs)
     \<and> list_all (is_send_to uid (email mb)) evs \<and> no_repeat uid (seen mb) evs"
proof -
  let ?g = "Get (mailcx_url (email mb) None)"
  have stay: "\<exists>r evs. (r0, mb, tr @ [?g]) =
       (r, mb\<lparr>seen := foldl (note_event uid) (seen mb) evs\<rparr>, tr @ ?g # evs)
     \<and> list_all (is_send_to uid (email mb)) evs \<and> no_repeat uid (seen mb) evs"
    for r0 :: "py_error option"
  proof -
    have "(r0, mb, tr @ [?g]) =
       (r0, mb\<lparr>seen := foldl (note_event uid) (seen mb) []\<rparr>, tr @ ?g # [])
     \<and> list_all (is_send_to uid (email mb)) [] \<and> no_repeat uid (seen mb) []"
      by simp
    then show ?thesis by blast
  qed
  show ?thesis
  proof (cases "select_messages (fst (fetch_mailcx e tr (email mb) None))")
    case None
    then show ?thesis using stay [of None] by (simp add: poll_mailbox_unfold)
  next
    case (Some messages)
    show ?thesis
    proof (cases "py_iter messages")
      case (Inl err)
      then show ?thesis using Some stay [of "Some err"] by (simp add: poll_mailbox_unfold)
    next
      case (Inr msgs)
      obtain r evs where 1:
        "poll_messages e uid (email mb) msgs (seen mb) (tr @ [?g]) =
           (r, foldl (note_event uid) (seen mb) evs, (tr @ [?g]) @ evs)"
        "list_all (is_send_to uid (email mb)) evs" "no_repeat uid (seen mb) evs"
        using poll_messages_sends [of e uid "email mb" msgs "seen mb" "tr @ [?g]"] by blast
      have "poll_mailbox e uid mb tr =
         (r, mb\<lparr>seen := foldl (note_event uid) (seen mb) evs\<rparr>, tr @ ?g # evs)"
        using Some Inr 1(1) by (simp add: poll_mailbox_unfold)
      with 1 show ?thesis by blast
    qed
  qed
qed

text \<open>
  A pass over the registry keeps the users and their addresses, keeps the bookkeeping in
  agreement with the trace, and makes requests and sends for its own entries only.
\<close>

lemma delivered_append:
  "delivered uid (tr @ evs) = foldl (note_event uid) (delivered uid tr) evs"
  by (simp add: delivered_def)

lemma unconcerned:
  "list_all (\<lambda>ev. \<not> concerns uid ev) evs \<Longrightarrow>
   foldl (note_event uid) d evs = d \<and> no_repeat uid d evs"
proof (induction evs)
  case Nil
  show ?case by simp
next
  case (Cons ev evs)
  then have "\<not> concerns uid ev" and "foldl (note_event uid) d evs = d \<and> no_repeat uid d evs"
    by simp_all
  then show ?case by (cases ev) simp_all
qed

lemma polled_by_unconcerned:
  "list_all (polled_by mbs) evs \<Longrightarrow> uid \<notin> fst ` set mbs \<Longrightarrow>
   list_all (\<lambda>ev. \<not> concerns uid ev) evs"
proof (induction evs)
  case Nil
  show ?case by simp
next
  case (Cons ev evs)
  then have "polled_by mbs ev" and "list_all (\<lambda>ev. \<not> concerns uid ev) evs"
    by simp_all
  with Cons.prems(2) show ?case by (cases ev) auto
qed

lemma polled_by_mono:
  "list_all (polled_by ms) evs \<Longrightarrow> set ms \<subseteq> set ns \<Longrightarrow> list_all (polled_by ns) evs"
proof (induction evs)
  case Nil
  show ?case by simp
next
  case (Cons ev evs)
  then have "polled_by ms ev" and "list_all (polled_by ns) evs"
    by simp_all
  with Cons.prems(2) show ?case by (cases ev) auto
qed

lemma sends_polled_by:
  "list_all (is_send_to uid (email mb)) evs \<Longrightarrow> list_all (polled_by [(uid, mb)]) evs"
proof (induction evs)
  case Nil
  show ?case by simp
next
  case (Cons ev evs)
  then have "is_send_to uid (email mb) ev" and "list_all (polled_by [(uid, mb)]) evs"
    by simp_all
  then show ?case by (cases ev) auto
qed

lemma polled_elsewhere:
  assumes "list_all (polled_by mbs) evs" and "uid \<notin> fst ` set mbs"
  shows "delivered uid (tr @ evs) = delivered uid tr" and "no_repeat uid d evs"
  using unconcerned [OF polled_by_unconcerned [OF assms]]
  by (simp_all add: delivered_append)


lemma poll_entries_sends:
  assumes "distinct (map fst mbs)"
    and "\<forall>p \<in> set mbs. seen (snd p) = delivered (fst p) tr"
  shows "\<exists>r mbs' evs. poll_entries e mbs tr = (r, mbs', tr @ evs)
     \<and> map fst mbs' = map fst mbs
     \<and> map (\<lambda>p. email (snd p)) mbs' = map (\<lambda>p. email (snd p)) mbs
     \<and> (\<forall>p \<in> set mbs'. seen (snd p) = delivered (fst p) (tr @ evs))
     \<and> list_all (polled_by mbs) evs
     \<and> (\<forall>uid. no_repeat uid (delivered uid tr) evs)"
  using assms
proof (induction mbs arbitrary: tr)
  case Nil
  have "poll_entries e [] tr = (None, [], tr @ [])
     \<and> map fst ([] :: (int \<times> mailbox) list) = map fst ([] :: (int \<times> mailbox) list)
     \<and> map (\<lambda>p. email (snd p)) ([] :: (int \<times> mailbox) list) = map (\<lambda>p. email (snd p)) []
     \<and> (\<forall>p \<in> set ([] :: (int \<times> mailbox) list). seen (snd p) = delivered (fst p) (tr @ []))
     \<and> list_all (polled_by []) []
     \<and> (\<forall>uid. no_repeat uid (delivered uid tr) [])"
    by simp
  then show ?case by blast
next
  case (Cons entry rest)
  obtain uid mb where entry: "entry = (uid, mb)"
    by (cases entry)
  let ?g = "Get (mailcx_url (email mb) None)"
  from Cons.prems have fresh: "uid \<notin> fst ` set rest" and dist: "distinct (map fst rest)"
    and mine: "seen mb = delivered uid tr"
    and theirs: "\<forall>p \<in> set rest. seen (snd p) = delivered (fst p) tr"
    by (simp_all add: entry)
  obtain r1 evs1 where 1:
    "poll_mailbox e uid mb tr =
       (r1, mb\<lparr>seen := foldl (note_event uid) (seen mb) evs1\<rparr>, tr @ ?g # evs1)"
    "list_all (is_send_to uid (email mb)) evs1" "no_repeat uid (seen mb) evs1"
    using poll_mailbox_sends [of e uid mb tr] by blast
  let ?mb1 = "mb\<lparr>seen := foldl (note_event uid) (seen mb) evs1\<rparr>"
  let ?E1 = "?g # evs1"
  have p1: "list_all (polled_by [(uid, mb)]) ?E1"
    using sends_polled_by [OF 1(2)] by simp
  have p1': "list_all (polled_by (entry # rest)) ?E1"
    using polled_by_mono [OF p1, of "entry # rest"] by (simp add: entry)
  have seen1: "seen ?mb1 = delivered uid (tr @ ?E1)"
    by (simp add: delivered_append mine)
  have nr1: "no_repeat u (delivered u tr) ?E1" for u
  proof (cases "u = uid")
    case True
    then show ?thesis using 1(3) mine by simp
  next
    case False
    then show ?thesis using polled_elsewhere(2) [OF p1, of u] by simp
  qed
  have others1: "delivered u (tr @ ?E1) = delivered u tr" if "u \<noteq> uid" for u
    using polled_elsewhere(1) [OF p1, of u tr] that by simp
  have theirs1: "\<forall>p \<in> set rest. seen (snd p) = delivered (fst p) (tr @ ?E1)"
  proof
    fix p assume p: "p \<in> set rest"
    with fresh have "fst p \<noteq> uid" by auto
    then show "seen (snd p) = delivered (fst p) (tr @ ?E1)"
      using theirs p others1 by simp
  qed
  show ?case
  proof (cases r1)
    case (Some err)
    have "poll_entries e (entry # rest) tr = (Some err, (uid, ?mb1) # rest, tr @ ?E1)"
      using 1(1) Some by (simp add: entry)
    moreover have "map fst ((uid, ?mb1) # rest) = map fst (entry # rest)"
      by (simp add: entry)
    moreover have "map (\<lambda>p. email (snd p)) ((uid, ?mb1) # rest)
        = map (\<lambda>p. email (snd p)) (entry # rest)"
      by (simp add: entry)
    moreover have "\<forall>p \<in> set ((uid, ?mb1) # rest). seen (snd p) = delivered (fst p) (tr @ ?E1)"
      using seen1 theirs1 by simp
    ultimately show ?thesis using nr1 p1' by blast
  next
    case None
    obtain r2 rest' evs2 where 2:
      "poll_entries e rest (tr @ ?E1) = (r2, rest', (tr @ ?E1) @ evs2)"
      "map fst rest' = map fst rest"
      "map (\<lambda>p. email (snd p)) rest' = map (\<lambda>p. email (snd p)) rest"
      "\<forall>p \<in> set rest'. seen (snd p) = delivered (fst p) ((tr @ ?E1) @ evs2)"
      "list_all (polled_by rest) evs2"
      "\<forall>u. no_repeat u (delivered u (tr @ ?E1)) evs2"
      using Cons.IH [OF dist theirs1] by blast
    have "poll_entries e (entry # rest) tr = (r2, (uid, ?mb1) # rest', tr @ (?E1 @ evs2))"
      using 1(1) None 2(1) by (simp add: entry)
    moreover have "map fst ((uid, ?mb1) # rest') = map fst (entry # rest)"
      using 2(2) by (simp add: entry)
    moreover have "map (\<lambda>p. email (snd p)) ((uid, ?mb1) # rest')
        = map (\<lambda>p. email (snd p)) (entry # rest)"
      using 2(3) by (simp add: entry)
    moreover have "\<forall>p \<in> set ((uid, ?mb1) # rest'). seen (snd p) = delivered (fst p) (tr @ (?E1 @ evs2))"
    proof -
      have "delivered uid ((tr @ ?E1) @ evs2) = delivered uid (tr @ ?E1)"
        using polled_elsewhere(1) [OF 2(5) fresh] .
      with seen1 have "seen ?mb1 = delivered uid (tr @ (?E1 @ evs2))"
        by simp
      with 2(4) show ?thesis by simp
    qed
    moreover have "list_all (polled_by (entry # rest)) (?E1 @ evs2)"
      using p1' polled_by_mono [OF 2(5), of "entry # rest"] by auto
    moreover have "\<forall>u. no_repeat u (delivered u tr) (?E1 @ evs2)"
    proof
      fix u
      have "no_repeat u (foldl (note_event u) (delivered u tr) ?E1) evs2"
        using 2(6) by (simp add: delivered_append)
      with nr1 [of u] show "no_repeat u (delivered u tr) (?E1 @ evs2)"
        by (simp only: no_repeat_append)
    qed
    ultimately show ?thesis by blast
  qed
qed

section \<open>Properties of the running bot\<close>

text \<open>
  Every action keeps the bookkeeping in agreement with the trace: a round of the poll
  loop by the lemmas above, a generate command because it installs an empty set
  \<^verbatim>\<open>seen\<close> and its reply starts a new subscription in the trace, a view action because
  it neither sends a message nor touches the registry.
\<close>

lemma dict_set_keys:
  "fst ` set (dict_set k v kvs) = insert k (fst ` set kvs)"
  by (induction kvs) auto

lemma dict_set_distinct:
  "distinct (map fst kvs) \<Longrightarrow> distinct (map fst (dict_set k v kvs))"
proof (induction kvs)
  case Nil
  show ?case by simp
next
  case (Cons p kvs)
  then show ?case
    using dict_set_keys [of k v kvs] by (auto simp del: set_map simp: set_map [symmetric])
qed

lemma dict_set_entries:
  "distinct (map fst kvs) \<Longrightarrow>
   set (dict_set k v kvs) = insert (k, v) {p \<in> set kvs. fst p \<noteq> k}"
proof (induction kvs)
  case Nil
  show ?case by simp
next
  case (Cons p kvs)
  show ?case
  proof (cases "fst p = k")
    case True
    with Cons.prems have "k \<notin> fst ` set kvs" by auto
    then have "{q \<in> set kvs. fst q \<noteq> k} = set kvs" by auto
    with True show ?thesis by auto
  next
    case False
    with Cons show ?thesis by auto
  qed
qed

lemma dict_set_filter:
  "distinct (map fst kvs) \<Longrightarrow> filter (\<lambda>p. fst p = k) (dict_set k v kvs) = [(k, v)]"
proof (induction kvs)
  case Nil
  show ?case by simp
next
  case (Cons p kvs)
  show ?case
  proof (cases "fst p = k")
    case True
    with Cons.prems have "k \<notin> fst ` set kvs" by auto
    then have "filter (\<lambda>q. fst q = k) kvs = []"
      by (auto simp: filter_empty_conv)
    with True show ?thesis by simp
  next
    case False
    with Cons show ?thesis by simp
  qed
qed

lemma consistent_append:
  assumes "consistent mbs tr" and "\<forall>uid. list_all (\<lambda>ev. \<not> concerns uid ev) evs"
  shows "consistent mbs (tr @ evs)"
proof -
  have "foldl (note_event uid) d evs = d \<and> no_repeat uid d evs" for uid d
    using assms(2) unconcerned [of uid evs d] by blast
  then have "delivered uid (tr @ evs) = delivered uid tr"
    and "no_repeat uid {} (tr @ evs) = no_repeat uid {} tr" for uid
    by (simp_all add: delivered_append no_repeat_append)
  with assms(1) show ?thesis
    by (simp add: consistent_def)
qed

lemma consistent_poll_entries:
  assumes "consistent mbs tr"
  shows "\<exists>r mbs' evs. poll_entries e mbs tr = (r, mbs', tr @ evs)
     \<and> map fst mbs' = map fst mbs
     \<and> map (\<lambda>p. email (snd p)) mbs' = map (\<lambda>p. email (snd p)) mbs
     \<and> list_all (polled_by mbs) evs
     \<and> consistent mbs' (tr @ evs)"
proof -
  from assms have d: "distinct (map fst mbs)"
    and s: "\<forall>p \<in> set mbs. seen (snd p) = delivered (fst p) tr"
    and n: "\<forall>uid. no_repeat uid {} tr"
    by (simp_all add: consistent_def)
  obtain r mbs' evs where 1: "poll_entries e mbs tr = (r, mbs', tr @ evs)"
    "map fst mbs' = map fst mbs"
    "map (\<lambda>p. email (snd p)) mbs' = map (\<lambda>p. email (snd p)) mbs"
    "\<forall>p \<in> set mbs'. seen (snd p) = delivered (fst p) (tr @ evs)"
    "list_all (polled_by mbs) evs"
    "\<forall>uid. no_repeat uid (delivered uid tr) evs"
    using poll_entries_sends [OF d s, of e] by blast
  have "no_repeat uid {} (tr @ evs)" for uid
    using n 1(6) by (simp add: no_repeat_append delivered_def)
  with d 1(2,4) have "consistent mbs' (tr @ evs)"
    by (simp add: consistent_def)
  with 1 show ?thesis by blast
qed

lemma consistent_poll_round:
  assumes "consistent (USER_MAILBOXES w) (trace w)"
  shows "consistent (USER_MAILBOXES (poll_round e w)) (trace (poll_round e w))"
proof -
  obtain r mbs' evs where 1: "poll_entries e (USER_MAILBOXES w) (trace w) = (r, mbs', trace w @ evs)"
    "consistent mbs' (trace w @ evs)"
    using consistent_poll_entries [OF assms, of e] by blast
  show ?thesis
  proof (cases r)
    case None
    have "\<forall>uid. list_all (\<lambda>ev. \<not> concerns uid ev) [Sleep POLL_INTERVAL]"
      by simp
    from consistent_append [OF 1(2) this] show ?thesis
      using 1(1) None by (simp add: poll_round_def)
  next
    case (Some err)
    with 1 show ?thesis by (simp add: poll_round_def)
  qed
qed

lemma consistent_generate:
  assumes "consistent (USER_MAILBOXES w) (trace w)"
  shows "consistent (USER_MAILBOXES (cmd_generate uid r w)) (trace (cmd_generate uid r w))"
proof -
  let ?a = "make_email (fst (make_random_username r))"
  let ?ev = "ReplyText uid (generate_reply ?a)"
  let ?new = "\<lparr>email = ?a, seen = {}\<rparr>"
  let ?mbs = "dict_set uid ?new (USER_MAILBOXES w)"
  from assms have d: "distinct (map fst (USER_MAILBOXES w))"
    and s: "\<forall>p \<in> set (USER_MAILBOXES w). seen (snd p) = delivered (fst p) (trace w)"
    and n: "\<forall>u. no_repeat u {} (trace w)"
    by (simp_all add: consistent_def)
  have "distinct (map fst ?mbs)"
    using d by (rule dict_set_distinct)
  moreover have "\<forall>p \<in> set ?mbs. seen (snd p) = delivered (fst p) (trace w @ [?ev])"
    using s by (auto simp: dict_set_entries [OF d] delivered_append)
  moreover have "\<forall>u. no_repeat u {} (trace w @ [?ev])"
    using n by (simp add: no_repeat_append)
  ultimately show ?thesis
    by (simp add: cmd_generate_def consistent_def Let_def)
qed

lemma callback_events:
  "\<exists>evs. callback_view_message e token tr = tr @ evs
     \<and> (\<forall>uid. list_all (\<lambda>ev. \<not> concerns uid ev) evs)"
proof (cases "CHR ''|'' \<in> set token")
  case True
  then obtain a m where t: "token = a @ CHR ''|'' # m" and a: "CHR ''|'' \<notin> set a"
    by (meson split_list_first)
  let ?evs = "[Answer, Get (mailcx_url a (Some m)),
     EditMessageText (truncate_text (message_text e (fst (fetch_mailcx e (tr @ [Answer]) a (Some m)))))]"
  have "callback_view_message e token tr = tr @ ?evs
     \<and> (\<forall>uid. list_all (\<lambda>ev. \<not> concerns uid ev) ?evs)"
    by (simp add: t callback_sep [OF a] view_message_shape)
  then show ?thesis by blast
next
  case False
  let ?evs = "[Answer, EditMessageText INVALID_DATA]"
  have "callback_view_message e token tr = tr @ ?evs
     \<and> (\<forall>uid. list_all (\<lambda>ev. \<not> concerns uid ev) ?evs)"
    by (simp add: callback_nosep [OF False])
  then show ?thesis by blast
qed

lemma consistent_step:
  assumes "consistent (USER_MAILBOXES w) (trace w)"
  shows "consistent (USER_MAILBOXES (step e w a)) (trace (step e w a))"
proof (cases a)
  case Tick
  then show ?thesis using assms consistent_poll_round [OF assms, of e] by simp
next
  case (Generate uid r)
  then show ?thesis using consistent_generate [OF assms, of uid r] by simp
next
  case (View token)
  obtain evs where "callback_view_message e token (trace w) = trace w @ evs"
    "\<forall>uid. list_all (\<lambda>ev. \<not> concerns uid ev) evs"
    using callback_events [of e token "trace w"] by blast
  then show ?thesis using consistent_append [OF assms] View by simp
qed

lemma consistent_run:
  "consistent (USER_MAILBOXES w) (trace w) \<Longrightarrow>
   consistent (USER_MAILBOXES (run e w acts)) (trace (run e w acts))"
  by (induction acts arbitrary: w) (simp_all add: consistent_step)

lemma consistent_initial: "consistent (USER_MAILBOXES initial_world) (trace initial_world)"
  by (simp add: consistent_def initial_world_def)

lemma run_append: "run e w (xs @ ys) = run e (run e w xs) ys"
  by (induction xs arbitrary: w) simp_all

section \<open>Delivery bookkeeping\<close>

text \<open>
  What the loop does for one message whose id is true-valued and can be hashed, with key
  \<open>k\<close>: when \<open>k\<close> is not in \<^verbatim>\<open>seen\<close> it makes one \<^verbatim>\<open>send_message\<close> call and adds \<open>k\<close>
  exactly when the call returned; when \<open>k\<close> is in \<^verbatim>\<open>seen\<close> it makes no call.
\<close>

lemma poll_message_new:
  assumes "truthy (dict_get kvs ''id'' JNull)" and "hash_key (dict_get kvs ''id'' JNull) = Some k"
    and "k \<notin> sn"
  shows "poll_message e uid a (JObj kvs) sn tr =
     (let mid = dict_get kvs ''id'' JNull;
          text = new_mail_text e (dict_get kvs ''subject'' (JStr ''(no subject)''))
                   (dict_get kvs ''from'' (JStr ''unknown'')) (dict_get kvs ''date'' (JStr []));
          ok = (send_message e tr uid text (callback_data e a mid) = None)
      in (None, if ok then insert k sn else sn, tr @ [SendMessage uid text a mid ok]))"
  using assms by (simp add: poll_message_def Let_def split: option.splits)

lemma poll_message_seen:
  assumes "hash_key (dict_get kvs ''id'' JNull) = Some k" and "k \<in> sn"
  shows "poll_message e uid a (JObj kvs) sn tr = (None, sn, tr)"
  using assms by (simp add: poll_message_def Let_def)

text \<open>
  A run in which the first call is refused: the message is sent again in the second round,
  is accepted, and is not sent in the third.
\<close>

lemma flaky_trace:
  "run flaky_env initial_world [Generate 42 (\<lambda>n. n), Tick, Tick, Tick] =
     \<lparr>USER_MAILBOXES = [(42, \<lparr>email = ''bcdefg@nqmo.com'', seen = {KStr ''m1''}\<rparr>)],
      trace = [ReplyText 42 (generate_reply ''bcdefg@nqmo.com''),
               Get (mailcx_url ''bcdefg@nqmo.com'' None),
               SendMessage 42 M1_TEXT ''bcdefg@nqmo.com'' (JStr ''m1'') False,
               Sleep 10,
               Get (mailcx_url ''bcdefg@nqmo.com'' None),
               SendMessage 42 M1_TEXT ''bcdefg@nqmo.com'' (JStr ''m1'') True,
               Sleep 10,
               Get (mailcx_url ''bcdefg@nqmo.com'' None),
               Sleep 10],
      task = None\<rparr>"
  by code_simp

text \<open>
  Claim C1 fails on the code. Line 138 tests the truth value of the id, so a message whose
  id is \<^verbatim>\<open>0\<close> (or the empty string, or \<^verbatim>\<open>false\<close>) is passed over in every round, with
  any environment, whatever the set \<^verbatim>\<open>seen\<close> holds: its id is not in \<^verbatim>\<open>seen\<close>, nothing
  has been delivered for it, and no \<^verbatim>\<open>send_message\<close> call is ever made. In the run
  below one user is registered and the provider lists the message \<open>ZERO_ID\<close> in both
  rounds: the trace holds the two requests and no message.
\<close>

theorem C1_zero_id_never_notified:
  "poll_message e uid a ZERO_ID sn tr = (None, sn, tr)
   \<and> run (quiet_env (Response 200 [] (Some (JObj [(''messages'', JList [ZERO_ID])]))))
         initial_world [Generate 42 (\<lambda>n. n), Tick, Tick] =
       \<lparr>USER_MAILBOXES = [(42, \<lparr>email = ''bcdefg@nqmo.com'', seen = {}\<rparr>)],
        trace = [ReplyText 42 (generate_reply ''bcdefg@nqmo.com''),
                 Get (mailcx_url ''bcdefg@nqmo.com'' None),
                 Sleep 10,
                 Get (mailcx_url ''bcdefg@nqmo.com'' None),
                 Sleep 10],
        task = None\<rparr>"
proof -
  have "poll_message e uid a ZERO_ID sn tr = (None, sn, tr)"
    by (simp add: ZERO_ID_def poll_message_def dict_get_def)
  moreover have "run (quiet_env (Response 200 [] (Some (JObj [(''messages'', JList [ZERO_ID])]))))
         initial_world [Generate 42 (\<lambda>n. n), Tick, Tick] =
       \<lparr>USER_MAILBOXES = [(42, \<lparr>email = ''bcdefg@nqmo.com'', seen = {}\<rparr>)],
        trace = [ReplyText 42 (generate_reply ''bcdefg@nqmo.com''),
                 Get (mailcx_url ''bcdefg@nqmo.com'' None),
                 Sleep 10,
                 Get (mailcx_url ''bcdefg@nqmo.com'' None),
                 Sleep 10],
        task = None\<rparr>"
    by code_simp
  ultimately show ?thesis by simp
qed

section \<open>Replacing a subscription\<close>

lemma filter_emails:
  "map fst ms = map fst ns \<Longrightarrow> map (\<lambda>p. email (snd p)) ms = map (\<lambda>p. email (snd p)) ns \<Longrightarrow>
   map (\<lambda>p. email (snd p)) (filter (\<lambda>p. fst p = uid) ms)
     = map (\<lambda>p. email (snd p)) (filter (\<lambda>p. fst p = uid) ns)"
proof (induction ms arbitrary: ns)
  case Nil
  then show ?case by simp
next
  case (Cons m ms)
  then obtain n ns' where ns: "ns = n # ns'" by (cases ns) auto
  with Cons.prems have "fst m = fst n" "email (snd m) = email (snd n)"
    "map fst ms = map fst ns'" "map (\<lambda>p. email (snd p)) ms = map (\<lambda>p. email (snd p)) ns'"
    by simp_all
  with Cons.IH [of ns'] show ?case by (simp add: ns)
qed

lemma dict_set_other:
  "k \<noteq> uid \<Longrightarrow> filter (\<lambda>p. fst p = uid) (dict_set k v kvs) = filter (\<lambda>p. fst p = uid) kvs"
  by (induction kvs) auto

lemma poll_round_addresses:
  assumes "consistent (USER_MAILBOXES w) (trace w)"
  shows "addresses_of uid (poll_round e w) = addresses_of uid w"
proof -
  obtain r mbs' evs where 1: "poll_entries e (USER_MAILBOXES w) (trace w) = (r, mbs', trace w @ evs)"
    "map fst mbs' = map fst (USER_MAILBOXES w)"
    "map (\<lambda>p. email (snd p)) mbs' = map (\<lambda>p. email (snd p)) (USER_MAILBOXES w)"
    using consistent_poll_entries [OF assms, of e] by blast
  have "USER_MAILBOXES (poll_round e w) = mbs'"
    using 1(1) by (cases r) (simp_all add: poll_round_def)
  then show ?thesis
    using filter_emails [OF 1(2,3), of uid] by (simp add: addresses_of_def)
qed

lemma step_addresses:
  assumes "consistent (USER_MAILBOXES w) (trace w)" and "\<not> generates uid a"
  shows "addresses_of uid (step e w a) = addresses_of uid w"
proof (cases a)
  case Tick
  then show ?thesis using poll_round_addresses [OF assms(1), of uid e] by simp
next
  case (Generate u r)
  with assms(2) have "u \<noteq> uid" by simp
  then show ?thesis
    by (simp add: Generate cmd_generate_def addresses_of_def Let_def dict_set_other)
next
  case (View token)
  then show ?thesis by (simp add: addresses_of_def)
qed

lemma run_addresses:
  "consistent (USER_MAILBOXES w) (trace w) \<Longrightarrow> list_all (\<lambda>a. \<not> generates uid a) later \<Longrightarrow>
   addresses_of uid (run e w later) = addresses_of uid w"
proof (induction later arbitrary: w)
  case Nil
  show ?case by simp
next
  case (Cons a later)
  then have "consistent (USER_MAILBOXES (step e w a)) (trace (step e w a))"
    and "addresses_of uid (step e w a) = addresses_of uid w"
    and "list_all (\<lambda>a. \<not> generates uid a) later"
    by (simp_all add: consistent_step step_addresses)
  with Cons.IH [of "step e w a"] show ?case by simp
qed

lemma generate_installs:
  assumes "consistent (USER_MAILBOXES w) (trace w)"
  shows "filter (\<lambda>p. fst p = uid) (USER_MAILBOXES (cmd_generate uid r w)) =
     [(uid, \<lparr>email = make_email (fst (make_random_username r)), seen = {}\<rparr>)]"
proof -
  from assms have "distinct (map fst (USER_MAILBOXES w))"
    by (simp add: consistent_def)
  then show ?thesis
    by (simp add: cmd_generate_def Let_def dict_set_filter)
qed

text \<open>
  Claim C7. In any run of the bot from its start, right after a generate command of a user
  the registry holds exactly one entry for that user: the address just generated, with an
  empty set \<^verbatim>\<open>seen\<close>; whatever the user had before is gone. As long as the user gives no
  further generate command, the registry keeps exactly that address for the user, through
  any rounds of the poll loop, view actions and commands of other users. A pass of the
  poll loop makes requests and sends messages for the entries of the registry only, so a
  replaced subscription is no longer polled.
\<close>

theorem C7_generate_replaces:
  assumes "list_all (\<lambda>a. \<not> generates uid a) later"
  shows "filter (\<lambda>p. fst p = uid) (USER_MAILBOXES (run e initial_world (acts @ [Generate uid r]))) =
       [(uid, \<lparr>email = make_email (fst (make_random_username r)), seen = {}\<rparr>)]
    \<and> map (\<lambda>p. email (snd p))
         (filter (\<lambda>p. fst p = uid) (USER_MAILBOXES (run e initial_world (acts @ Generate uid r # later))))
       = [make_email (fst (make_random_username r))]
    \<and> list_all (polled_by (USER_MAILBOXES (run e initial_world (acts @ Generate uid r # later))))
         (drop (length (trace (run e initial_world (acts @ Generate uid r # later))))
            (snd (snd (poll_entries e
               (USER_MAILBOXES (run e initial_world (acts @ Generate uid r # later)))
               (trace (run e initial_world (acts @ Generate uid r # later)))))))"
proof -
  let ?w0 = "run e initial_world acts"
  let ?w1 = "cmd_generate uid r ?w0"
  let ?w2 = "run e ?w1 later"
  have c0: "consistent (USER_MAILBOXES ?w0) (trace ?w0)"
    using consistent_initial by (rule consistent_run)
  then have c1: "consistent (USER_MAILBOXES ?w1) (trace ?w1)"
    by (rule consistent_generate)
  then have c2: "consistent (USER_MAILBOXES ?w2) (trace ?w2)"
    by (rule consistent_run)
  have r1: "run e initial_world (acts @ [Generate uid r]) = ?w1"
    by (simp add: run_append)
  have r2: "run e initial_world (acts @ Generate uid r # later) = ?w2"
    by (simp add: run_append)
  have 1: "filter (\<lambda>p. fst p = uid) (USER_MAILBOXES ?w1) =
       [(uid, \<lparr>email = make_email (fst (make_random_username r)), seen = {}\<rparr>)]"
    using c0 by (rule generate_installs)
  have "addresses_of uid ?w2 = addresses_of uid ?w1"
    using c1 assms by (rule run_addresses)
  with 1 have 2: "map (\<lambda>p. email (snd p)) (filter (\<lambda>p. fst p = uid) (USER_MAILBOXES ?w2))
       = [make_email (fst (make_random_username r))]"
    by (simp add: addresses_of_def)
  obtain rr mbs' evs where "poll_entries e (USER_MAILBOXES ?w2) (trace ?w2) = (rr, mbs', trace ?w2 @ evs)"
    "list_all (polled_by (USER_MAILBOXES ?w2)) evs"
    using consistent_poll_entries [OF c2, of e] by blast
  then have 3: "list_all (polled_by (USER_MAILBOXES ?w2))
         (drop (length (trace ?w2)) (snd (snd (poll_entries e (USER_MAILBOXES ?w2) (trace ?w2)))))"
    by simp
  show ?thesis
    unfolding r1 r2 using 1 2 3 by blast
qed

text \<open>A user who generates twice, with rounds and another user's command around.\<close>

theorem C7_generate_replaces_witness:
  "filter (\<lambda>p. fst p = 42)
     (USER_MAILBOXES (run flaky_env initial_world ([Generate 42 (\<lambda>n. n), Tick] @ [Generate 42 (\<lambda>n. 0)]))) =
       [(42, \<lparr>email = make_email (fst (make_random_username (\<lambda>n. 0))), seen = {}\<rparr>)]
   \<and> map (\<lambda>p. email (snd p))
         (filter (\<lambda>p. fst p = 42)
            (USER_MAILBOXES (run flaky_env initial_world
               ([Generate 42 (\<lambda>n. n), Tick] @ Generate 42 (\<lambda>n. 0) # [Tick, Generate 7 (\<lambda>n. n), Tick]))))
       = [make_email (fst (make_random_username (\<lambda>n. 0)))]"
  using C7_generate_replaces [of 42 "[Tick, Generate 7 (\<lambda>n. n), Tick]" flaky_env
      "[Generate 42 (\<lambda>n. n), Tick]" "\<lambda>n. 0"]
  by simp

text \<open>
  The same user generates a second address after the message has been delivered: the
  round that follows asks for the new address only, and delivers to the new subscription.
\<close>

lemma replaced_mailbox:
  "run flaky_env initial_world [Generate 42 (\<lambda>n. n), Tick, Tick, Generate 42 (\<lambda>n. 0), Tick] =
     \<lparr>USER_MAILBOXES = [(42, \<lparr>email = ''aaaaaa@nqmo.com'', seen = {KStr ''m1''}\<rparr>)],
      trace = [ReplyText 42 (generate_reply ''bcdefg@nqmo.com''),
               Get (mailcx_url ''bcdefg@nqmo.com'' None),
               SendMessage 42 M1_TEXT ''bcdefg@nqmo.com'' (JStr ''m1'') False,
               Sleep 10,
               Get (mailcx_url ''bcdefg@nqmo.com'' None),
               SendMessage 42 M1_TEXT ''bcdefg@nqmo.com'' (JStr ''m1'') True,
               Sleep 10,
               ReplyText 42 (generate_reply ''aaaaaa@nqmo.com''),
               Get (mailcx_url ''aaaaaa@nqmo.com'' None),
               SendMessage 42 M1_TEXT ''aaaaaa@nqmo.com'' (JStr ''m1'') True,
               Sleep 10],
      task = None\<rparr>"
  by code_simp

section \<open>Failures of the provider\<close>

lemma poll_mailbox_skips:
  assumes "(\<exists>c. fst (fetch_mailcx e tr (email mb) None) = JObj [(''error'', JStr c)])
         \<or> (\<exists>t. fst (fetch_mailcx e tr (email mb) None) = JStr t)"
  shows "poll_mailbox e uid mb tr = (None, mb, tr @ [Get (mailcx_url (email mb) None)])"
  using assms by (auto simp: poll_mailbox_unfold select_messages_def)

lemma poll_mailbox_requests:
  "\<exists>r mb' evs. poll_mailbox e uid mb tr = (r, mb', tr @ Get (mailcx_url (email mb) None) # evs)"
  using poll_mailbox_sends [of e uid mb tr] by blast

text \<open>
  Claim C3, as the code has it. \<^verbatim>\<open>fetch_mailcx\<close> always returns a value and makes exactly
  one request. When the request or the reading of the body raises (no connection,
  timeout), the value is a dict with the single field \<^verbatim>\<open>error\<close> that carries the
  exception's text; when the body does not decode as JSON, the value is the body's text;
  when it decodes, the value is the decoded body, whatever the status of the response,
  which is not read. When the fetched value is such a dict or a
  text, the poll loop passes the mailbox over: no \<^verbatim>\<open>send_message\<close> call, the mailbox
  unchanged, no exception. Every pass over a mailbox, whatever has happened before,
  starts with a request for its address, so the query is made again in a later round.
\<close>

theorem C3_failed_fetch_skips_mailbox:
  "snd (fetch_mailcx e tr a mid) = tr @ [Get (mailcx_url a mid)]
   \<and> (http_get e tr (mailcx_url a mid) = GetRaises msg
        \<or> http_get e tr (mailcx_url a mid) = TextRaises status msg
      \<longrightarrow> fst (fetch_mailcx e tr a mid) = JObj [(''error'', JStr msg)])
   \<and> (http_get e tr (mailcx_url a mid) = Response status body None
      \<longrightarrow> fst (fetch_mailcx e tr a mid) = JStr body)
   \<and> (http_get e tr (mailcx_url a mid) = Response status body (Some v)
      \<longrightarrow> fst (fetch_mailcx e tr a mid) = v)
   \<and> ((\<exists>c. fst (fetch_mailcx e tr (email mb) None) = JObj [(''error'', JStr c)])
        \<or> (\<exists>t. fst (fetch_mailcx e tr (email mb) None) = JStr t)
      \<longrightarrow> poll_mailbox e uid mb tr = (None, mb, tr @ [Get (mailcx_url (email mb) None)]))
   \<and> (\<exists>r mb' evs. poll_mailbox e uid mb tr' =
         (r, mb', tr' @ Get (mailcx_url (email mb) None) # evs))"
proof -
  have "snd (fetch_mailcx e tr a mid) = tr @ [Get (mailcx_url a mid)]"
    by (simp add: fetch_mailcx_def Let_def)
  moreover have "fst (fetch_mailcx e tr a mid) = JObj [(''error'', JStr msg)]"
    if "http_get e tr (mailcx_url a mid) = GetRaises msg
        \<or> http_get e tr (mailcx_url a mid) = TextRaises status msg"
    using that by (auto simp: fetch_mailcx_def Let_def)
  moreover have "fst (fetch_mailcx e tr a mid) = JStr body"
    if "http_get e tr (mailcx_url a mid) = Response status body None"
    using that by (simp add: fetch_mailcx_def Let_def)
  moreover have "fst (fetch_mailcx e tr a mid) = v"
    if "http_get e tr (mailcx_url a mid) = Response status body (Some v)"
    using that by (simp add: fetch_mailcx_def Let_def)
  ultimately show ?thesis
    using poll_mailbox_skips [of e tr mb uid] poll_mailbox_requests [of e uid mb tr']
    by blast
qed

text \<open>
  A provider that times out, one that answers with a page that is not JSON, and one that
  answers with status 404 and a JSON list.
\<close>

theorem C3_failed_fetch_skips_mailbox_witness:
  "fst (fetch_mailcx (quiet_env (GetRaises ''timeout'')) [] ''abc123@nqmo.com'' None)
     = JObj [(''error'', JStr ''timeout'')]
   \<and> poll_mailbox (quiet_env (GetRaises ''timeout'')) 7 (box ''abc123@nqmo.com'') []
     = (None, box ''abc123@nqmo.com'', [Get (mailcx_url ''abc123@nqmo.com'' None)])
   \<and> fst (fetch_mailcx (quiet_env (Response 200 ''<html>'' None)) [] ''abc123@nqmo.com'' None)
     = JStr ''<html>''
   \<and> poll_mailbox (quiet_env (Response 200 ''<html>'' None)) 7 (box ''abc123@nqmo.com'') []
     = (None, box ''abc123@nqmo.com'', [Get (mailcx_url ''abc123@nqmo.com'' None)])
   \<and> fst (fetch_mailcx (quiet_env (Response 404 [] (Some (JList [M1])))) [] ''abc123@nqmo.com'' None)
     = JList [M1]"
proof -
  have e: "email (box ''abc123@nqmo.com'') = ''abc123@nqmo.com''"
    by (simp add: box_def)
  have g: "http_get (quiet_env out) tr url = out" for out tr url
    by (simp add: quiet_env_def)
  show ?thesis
    using
      C3_failed_fetch_skips_mailbox [where e = "quiet_env (GetRaises ''timeout'')" and tr = "[]"
        and a = "''abc123@nqmo.com''" and mid = None and msg = "''timeout''" and status = 0
        and body = "[]" and v = JNull and mb = "box ''abc123@nqmo.com''" and uid = 7 and tr' = "[]"]
      C3_failed_fetch_skips_mailbox [where e = "quiet_env (Response 200 ''<html>'' None)" and tr = "[]"
        and a = "''abc123@nqmo.com''" and mid = None and msg = "[]" and status = 200
        and body = "''<html>''" and v = JNull and mb = "box ''abc123@nqmo.com''" and uid = 7
        and tr' = "[]"]
      C3_failed_fetch_skips_mailbox [where e = "quiet_env (Response 404 [] (Some (JList [M1])))"
        and tr = "[]" and a = "''abc123@nqmo.com''" and mid = None and msg = "[]" and status = 404
        and body = "[]" and v = "JList [M1]" and mb = "box ''abc123@nqmo.com''" and uid = 7
        and tr' = "[]"]
    unfolding e g by simp
qed

text \<open>
  Claim C3 as stated fails for a response that is not a success: the provider answers
  with status 500 and a JSON list that holds the message \<open>M1\<close>. \<^verbatim>\<open>fetch_mailcx\<close> returns
  the list, not an error value, and the poll loop sends the message and records its id.
\<close>

theorem C3_status_not_read_counterexample:
  "http_get (quiet_env (Response 500 [] (Some (JList [M1])))) []
       (mailcx_url ''abc123@nqmo.com'' None) = Response 500 [] (Some (JList [M1]))
   \<and> fst (fetch_mailcx (quiet_env (Response 500 [] (Some (JList [M1])))) []
            ''abc123@nqmo.com'' None) = JList [M1]
   \<and> poll_mailbox (quiet_env (Response 500 [] (Some (JList [M1])))) 7 (box ''abc123@nqmo.com'') [] =
       (None, \<lparr>email = ''abc123@nqmo.com'', seen = {KStr ''m1''}\<rparr>,
        [Get (mailcx_url ''abc123@nqmo.com'' None),
         SendMessage 7 M1_TEXT ''abc123@nqmo.com'' (JStr ''m1'') True])"
  by code_simp

section \<open>Malformed entries\<close>

text \<open>
  One message raises exactly when it is not a dict, or when its id is true-valued and
  cannot be hashed. Nothing in \<^verbatim>\<open>poll_inboxes\<close> catches that exception.
\<close>

lemma poll_message_raises_iff:
  "fst (poll_message e uid a msg sn tr) \<noteq> None \<longleftrightarrow>
     (case msg of
        JObj kvs \<Rightarrow> truthy (dict_get kvs ''id'' JNull) \<and> hash_key (dict_get kvs ''id'' JNull) = None
      | _ \<Rightarrow> True)"
  by (cases msg) (auto simp: poll_message_def Let_def split: option.splits)

text \<open>
  Claim C2 fails on the code. Two users are registered and the provider answers every
  listing with the JSON list \<^verbatim>\<open>["oops"]\<close>, whose entry is not a dict. The first round
  requests the first user's mailbox and raises \<^verbatim>\<open>AttributeError\<close> at \<^verbatim>\<open>msg.get\<close>: the
  second user's mailbox is not requested in that round, the background task is over, and
  the second round does not take place.
\<close>

theorem C2_malformed_entry_ends_poll_loop:
  "run (quiet_env (Response 200 [] (Some (JList [JStr ''oops''])))) initial_world
      [Generate 1 (\<lambda>n. 0), Generate 2 (\<lambda>n. n), Tick, Tick] =
     \<lparr>USER_MAILBOXES = [(1, box ''aaaaaa@nqmo.com''), (2, box ''bcdefg@nqmo.com'')],
      trace = [ReplyText 1 (generate_reply ''aaaaaa@nqmo.com''),
               ReplyText 2 (generate_reply ''bcdefg@nqmo.com''),
               Get (mailcx_url ''aaaaaa@nqmo.com'' None)],
      task = Some AttributeError\<rparr>"
  by code_simp

text \<open>
  The same happens for a message whose id is a non-empty list (\<^verbatim>\<open>TypeError\<close> at
  \<^verbatim>\<open>mid in seen\<close>) and for a field \<^verbatim>\<open>messages\<close> that cannot be iterated.
\<close>

lemma unhashable_id_ends_poll_loop:
  "run (quiet_env (Response 200 [] (Some (JObj [(''messages'', JList [JObj [(''id'', JList [JInt 1])]])]))))
      initial_world [Generate 1 (\<lambda>n. 0), Generate 2 (\<lambda>n. n), Tick, Tick] =
     \<lparr>USER_MAILBOXES = [(1, box ''aaaaaa@nqmo.com''), (2, box ''bcdefg@nqmo.com'')],
      trace = [ReplyText 1 (generate_reply ''aaaaaa@nqmo.com''),
               ReplyText 2 (generate_reply ''bcdefg@nqmo.com''),
               Get (mailcx_url ''aaaaaa@nqmo.com'' None)],
      task = Some TypeError\<rparr>"
  by code_simp

lemma messages_not_iterable_ends_poll_loop:
  "run (quiet_env (Response 200 [] (Some (JObj [(''messages'', JInt 5)]))))
      initial_world [Generate 1 (\<lambda>n. 0), Generate 2 (\<lambda>n. n), Tick, Tick] =
     \<lparr>USER_MAILBOXES = [(1, box ''aaaaaa@nqmo.com''), (2, box ''bcdefg@nqmo.com'')],
      trace = [ReplyText 1 (generate_reply ''aaaaaa@nqmo.com''),
               ReplyText 2 (generate_reply ''bcdefg@nqmo.com''),
               Get (mailcx_url ''aaaaaa@nqmo.com'' None)],
      task = Some TypeError\<rparr>"
  by code_simp

section \<open>The background task as a run of rounds\<close>

text \<open>
  \<open>n\<close> rounds of \<^verbatim>\<open>poll_inboxes\<close>, started while the task is alive, are the run of \<open>n\<close>
  \<open>Tick\<close> actions, so what holds of every run holds of the background task on its own.
\<close>

lemma run_ticks_when_over:
  "task w \<noteq> None \<Longrightarrow> run e w (replicate n Tick) = w"
  by (induction n) auto

lemma poll_inboxes_run:
  "task w = None \<Longrightarrow> poll_inboxes e n w = run e w (replicate n Tick)"
proof (induction n arbitrary: w)
  case 0
  show ?case by simp
next
  case (Suc n)
  show ?case
  proof (cases "task (poll_round e w) = None")
    case True
    with Suc.IH [of "poll_round e w"] Suc.prems show ?thesis
      by (simp add: Let_def)
  next
    case False
    with run_ticks_when_over [of "poll_round e w" e n] Suc.prems show ?thesis
      by (auto simp: Let_def)
  qed
qed

end
